theory Spec2Isabelle
  imports Complex_Main "HOL-Library.Multiset"
begin

section \<open>Floating-point numbers\<close>

text \<open>
  Go's \<^verbatim>\<open>float64\<close> is the binary64 format of IEEE 754. A value is a NaN, an infinity,
  the negative zero, or a number \<open>m * 2 ^ q\<close> with \<open>\<bar>m\<bar> < 2 ^ 53\<close> and \<open>- 1074 \<le> q \<le> 971\<close>,
  kept as the real number it denotes; \<open>Finite 0\<close> is the positive zero. Every operation
  below returns a number of that form, and \<open>Finite x\<close> stands for a \<^verbatim>\<open>float64\<close> when
  \<open>round64 x = Finite x\<close>. The payload of a NaN is not kept: the program does not read it.

  \<open>bitLength\<close> is the number of binary digits of a natural number, \<open>exponentOf x\<close> the
  integer \<open>e\<close> with \<open>2 ^ e \<le> \<bar>x\<bar> < 2 ^ (e + 1)\<close>, and \<open>pow2\<close> the power of two with
  an integer exponent.
\<close>

datatype float64 = Finite real | NegZero | PosInf | NegInf | NaN

fun bitLength :: "nat \<Rightarrow> nat" where
  "bitLength n = (if n = 0 then 0 else Suc (bitLength (n div 2)))"

declare bitLength.simps [simp del]

definition pow2 :: "int \<Rightarrow> real" where
  "pow2 e = (if e \<ge> 0 then 2 ^ nat e else 1 / 2 ^ nat (- e))"

definition exponentOf :: "real \<Rightarrow> int" where
  "exponentOf x =
    (if \<bar>x\<bar> \<ge> 1 then int (bitLength (nat \<lfloor>\<bar>x\<bar>\<rfloor>)) - 1
     else - int (bitLength (nat (\<lceil>1 / \<bar>x\<bar>\<rceil> - 1))))"

text \<open>
  Rounding to nearest, ties to even, which is the rounding of every arithmetic operation
  and conversion in Go. The unit in the last place of \<open>x\<close> is \<open>2 ^ q\<close> with
  \<open>q = max e (- 1022) - 52\<close> (the numbers below \<open>2 ^ - 1022\<close> are subnormal), \<open>x\<close> is
  rounded to an integer multiple of that unit, and a result of magnitude \<open>2 ^ 1024\<close> is
  an overflow. A nonzero number that rounds to zero keeps its sign.
\<close>

definition roundEven :: "real \<Rightarrow> int" where
  "roundEven y =
    (let f = \<lfloor>y\<rfloor>; d = y - of_int f
     in if d < 1 / 2 then f else if d > 1 / 2 then f + 1 else if even f then f else f + 1)"

definition round64 :: "real \<Rightarrow> float64" where
  "round64 x =
    (if x = 0 then Finite 0
     else
       let q = max (exponentOf x) (- 1022) - 52;
           m = roundEven (x / pow2 q);
           r = of_int m * pow2 q
       in if \<bar>r\<bar> \<ge> pow2 1024 then (if x > 0 then PosInf else NegInf)
          else if m = 0 then (if x > 0 then Finite 0 else NegZero)
          else Finite r)"

text \<open>
  The operations of the language on \<^verbatim>\<open>float64\<close>: \<^verbatim>\<open>-x\<close>, \<^verbatim>\<open>x + y\<close>, \<^verbatim>\<open>x - y\<close>,
  \<^verbatim>\<open>x / y\<close>, \<^verbatim>\<open>x < y\<close> and the conversion \<^verbatim>\<open>float64(n)\<close> of an \<^verbatim>\<open>int\<close>. Each
  is the exact operation followed by \<open>round64\<close>, with the special values as IEEE 754
  has them: a NaN operand gives NaN, as do \<open>\<infinity> - \<infinity>\<close>, \<open>\<infinity> / \<infinity>\<close> and \<open>0 / 0\<close>; an exact sum
  of zero is the positive zero unless both operands are the negative zero; every
  comparison with a NaN is false and the two zeros are equal. \<^verbatim>\<open>x > y\<close> is \<^verbatim>\<open>y < x\<close>.
  The code has no product followed by a sum, so no two operations can be fused.
\<close>

fun fneg :: "float64 \<Rightarrow> float64" where
  "fneg (Finite x) = (if x = 0 then NegZero else Finite (- x))"
| "fneg NegZero = Finite 0"
| "fneg PosInf = NegInf"
| "fneg NegInf = PosInf"
| "fneg NaN = NaN"

fun fadd :: "float64 \<Rightarrow> float64 \<Rightarrow> float64" where
  "fadd NaN b = NaN"
| "fadd a NaN = NaN"
| "fadd PosInf NegInf = NaN"
| "fadd NegInf PosInf = NaN"
| "fadd PosInf b = PosInf"
| "fadd a PosInf = PosInf"
| "fadd NegInf b = NegInf"
| "fadd a NegInf = NegInf"
| "fadd NegZero b = b"
| "fadd a NegZero = a"
| "fadd (Finite x) (Finite y) = (if x + y = 0 then Finite 0 else round64 (x + y))"

definition fsub :: "float64 \<Rightarrow> float64 \<Rightarrow> float64" where
  "fsub a b = fadd a (fneg b)"

fun valueOf :: "float64 \<Rightarrow> real" where
  "valueOf (Finite x) = x"
| "valueOf a = 0"

fun signBit :: "float64 \<Rightarrow> bool" where
  "signBit (Finite x) = (x < 0)"
| "signBit NegZero = True"
| "signBit NegInf = True"
| "signBit a = False"

definition isInf :: "float64 \<Rightarrow> bool" where
  "isInf a = (a = PosInf \<or> a = NegInf)"

definition isZero :: "float64 \<Rightarrow> bool" where
  "isZero a = (a = Finite 0 \<or> a = NegZero)"

definition fdiv :: "float64 \<Rightarrow> float64 \<Rightarrow> float64" where
  "fdiv a b =
    (if a = NaN \<or> b = NaN then NaN
     else if isInf a \<and> isInf b then NaN
     else if isZero a \<and> isZero b then NaN
     else if isInf a \<or> isZero b then (if signBit a = signBit b then PosInf else NegInf)
     else if isZero a \<or> isInf b then (if signBit a = signBit b then Finite 0 else NegZero)
     else round64 (valueOf a / valueOf b))"

fun fless :: "float64 \<Rightarrow> float64 \<Rightarrow> bool" where
  "fless NaN b = False"
| "fless a NaN = False"
| "fless PosInf b = False"
| "fless a NegInf = False"
| "fless NegInf b = True"
| "fless a PosInf = True"
| "fless a b = (valueOf a < valueOf b)"

definition float64_of_int :: "int \<Rightarrow> float64" where
  "float64_of_int n = round64 (of_int n)"

section \<open>Data model\<close>

text \<open>
  The records follow the Go structs of \<^verbatim>\<open>config.go\<close> (seller profile models),
  \<^verbatim>\<open>service.go\<close> (analysis, aggregation and ticket models) and \<^verbatim>\<open>watcher.go\<close>
  (the transcript). Field names are those of the source; where two structs share a field
  name the field of the less central struct carries a short prefix (\<open>i\<close> for Issue,
  \<open>s\<close> for SellerStatus, \<open>c\<close> for CallSummary, \<open>p\<close> for TrendPoint, \<open>bc\<close> for
  BucketCount, \<open>bs\<close> for BucketSummary, \<open>pc\<close> for ProblemCount, \<open>a\<close> for
  DailyAggregate, \<open>t\<close> for Ticket, \<open>ht\<close> for HackathonTranscript).

  Go's \<^verbatim>\<open>int\<close> is modelled as \<open>int\<close>. Counters that count loop iterations or slice
  elements cannot reach \<open>2 ^ 63\<close>; arithmetic on values that come from outside (the
  satisfaction score) wraps, and the wrap-around is written out with \<open>wrap64\<close>.
  \<^verbatim>\<open>time.Time\<close> is a number of nanoseconds, \<^verbatim>\<open>float64\<close> is the type of the
  previous section, a Go \<^verbatim>\<open>string\<close> is a list of bytes.
\<close>

type_synonym time = int

datatype json = JBool bool | JOther

record Issue =
  iProblem :: string
  iBucket :: string
  iSeverity :: string
  iActionableSummary :: string
  iKeywords :: "string list"

record SellerIntent =
  Sentiment :: string
  SatisfactionScore :: int
  PromptResolution :: bool
  OverallExperience :: string

record ChurnPrediction =
  IsLikelyToChurn :: string
  RenewalAtRisk :: bool
  DissatisfactionLevel :: string
  ChurnReason :: string
  RenewalProbability :: float64

record UpsellScore =
  HasOpportunity :: bool
  Score :: int
  WillingnessToInvest :: string
  IsGrowthOriented :: bool
  InterestedFeatures :: "string list"
  UpsellReason :: string

record AnalysisResult =
  CallID :: string
  SellerID :: string
  Timestamp :: time
  TranscriptEn :: string
  OriginalLang :: string
  Issues :: "Issue list"
  Intent :: SellerIntent
  Churn :: ChurnPrediction
  Upsell :: UpsellScore
  CallSummaryText :: string
  AgentPerformance :: string
  LLMRaw :: "(string \<rightharpoonup> json) option"
  AnalyzedAt :: time

record SellerStatus =
  HealthScore :: int
  HealthLabel :: string
  ChurnRisk :: string
  ChurnProbability :: float64
  sSentiment :: string
  sSatisfactionScore :: int
  OpenIssueCount :: int
  UpsellPotential :: string
  NeedsAttention :: bool
  AttentionReason :: string

record CallSummary =
  cCallID :: string
  cTimestamp :: time
  Duration :: int
  Direction :: string
  Summary :: string
  cSentiment :: string
  IssuesRaised :: int
  IssuesResolved :: int
  cAgentPerformance :: string
  WasEscalated :: bool
  FollowUpNeeded :: bool

record TrackedIssue =
  IssueID :: string
  Problem :: string
  Bucket :: string
  Severity :: string
  ActionRequired :: string
  Status :: string
  FirstReportedAt :: time
  LastMentionedAt :: time
  ResolvedAt :: "time option"
  MentionCount :: int
  CallIDs :: "string list"
  IsRecurring :: bool

record BucketCount =
  bcBucket :: string
  bcCount :: int

record IssueStatistics =
  TotalIssuesEver :: int
  CurrentOpenCount :: int
  ResolvedCount :: int
  RecurringCount :: int
  AvgResolutionDays :: float64
  TopBuckets :: "BucketCount list"
  SeverityBreakdown :: "string \<rightharpoonup> int"

record TrendPoint =
  Date :: string
  Value :: float64
  Label :: string
  pCallID :: string

record SellerTrends =
  SentimentHistory :: "TrendPoint list"
  SatisfactionHistory :: "TrendPoint list"
  IssueHistory :: "TrendPoint list"
  SentimentTrend :: string
  SatisfactionTrend :: string
  OverallTrend :: string
  ChurnRiskHistory :: "TrendPoint list"

record SellerProfile =
  GluserID :: string
  CustomerType :: string
  CityName :: string
  Vertical :: string
  VintageMonths :: int
  CurrentStatus :: SellerStatus
  TotalCalls :: int
  CallHistory :: "CallSummary list"
  ActiveIssues :: "TrackedIssue list"
  ResolvedIssues :: "TrackedIssue list"
  IssueStats :: IssueStatistics
  Trends :: SellerTrends
  SellerCategories :: "string list"
  CreatedAt :: time
  UpdatedAt :: time
  LastCallAt :: time

record SellerCategory =
  McatID :: string
  McatName :: string

record HackathonTranscript =
  ClickToCallID :: string
  htGluserID :: string
  htVintageMonths :: int
  BLDauOct :: int
  htCustomerType :: string
  htCityName :: string
  IILVerticalName :: string
  CustomerTicketID :: string
  CustomerTicketStatus :: string
  IsTicketRepeat60d :: string
  Transcript :: string
  htSummary :: string
  CallEnteredOn :: string
  FlagInOut :: string
  CallStatus :: string
  CallDuration :: int
  CallRecordingURL :: string
  UCID :: string
  htSellerCategories :: "SellerCategory list"

record ProblemCount =
  pcProblem :: string
  pcCount :: int
  pcSeverity :: string

record BucketSummary =
  bsBucket :: string
  TotalCount :: int
  AffectedSellers :: int
  AffectedSellerIDs :: "string list"
  bsTopProblems :: "ProblemCount list"
  bsSeverityBreakdown :: "string \<rightharpoonup> int"
  bsExamples :: "string list"

record DailyAggregate =
  aDate :: string
  aTotalCalls :: int
  TotalIssues :: int
  FeatureBuckets :: "(string \<times> BucketSummary) list"
  SentimentBreakdown :: "string \<rightharpoonup> int"
  ChurnRiskBreakdown :: "string \<rightharpoonup> int"
  UpsellOpportunities :: int
  AvgSatisfaction :: float64
  GeneratedAt :: time

record Ticket =
  TicketID :: string
  tDate :: string
  FeatureBucket :: string
  Priority :: int
  Title :: string
  Description :: string
  tTopProblems :: "ProblemCount list"
  AffectedCount :: int
  tAffectedSellers :: "string list"
  tExamples :: "string list"
  tSeverity :: string
  tStatus :: string
  tCreatedAt :: time

section \<open>Go primitives used by the code\<close>

text \<open>Signed 64-bit wrap-around of Go's \<^verbatim>\<open>int\<close> arithmetic.\<close>

definition wrap64 :: "int \<Rightarrow> int" where
  "wrap64 x = (x + 2 ^ 63) mod 2 ^ 64 - 2 ^ 63"

text \<open>
  Go's \<^verbatim>\<open>/\<close> and \<^verbatim>\<open>%\<close> on integers: the quotient is truncated towards zero and the
  remainder has the sign of the dividend.
\<close>

definition goDiv :: "int \<Rightarrow> int \<Rightarrow> int" where
  "goDiv a b = sgn a * sgn b * (\<bar>a\<bar> div \<bar>b\<bar>)"

definition goMod :: "int \<Rightarrow> int \<Rightarrow> int" where
  "goMod a b = a - b * goDiv a b"

text \<open>\<^verbatim>\<open>fmt.Sprintf("%d", n)\<close>: decimal digits, with a minus sign for negative numbers.\<close>

fun show_nat :: "nat \<Rightarrow> string" where
  "show_nat n =
     (if n < 10 then [''0123456789'' ! n]
      else show_nat (n div 10) @ [''0123456789'' ! (n mod 10)])"

declare show_nat.simps [simp del]

definition show_int :: "int \<Rightarrow> string" where
  "show_int i = (if i < 0 then CHR ''-'' # show_nat (nat (- i)) else show_nat (nat i))"

text \<open>A lookup in a Go \<^verbatim>\<open>map[string]int\<close>: a missing key reads as 0.\<close>

definition lookup0 :: "('k \<rightharpoonup> int) \<Rightarrow> 'k \<Rightarrow> int" where
  "lookup0 m k = (case m k of None \<Rightarrow> 0 | Some v \<Rightarrow> v)"

section \<open>HealthScorer\<close>

text \<open>
  \<^verbatim>\<open>calculateCurrentStatus\<close> (config.go). The body of the Go function is one
  straight-line block; it is cut here at its own comment lines into the additive score
  (\<open>healthScoreSum\<close>, from "Calculate health score" to "Trend impact"), the clamp
  ("Clamp score"), the label ("Health label") and the attention rule ("Needs attention
  flag"), and \<open>calculateCurrentStatus\<close> runs them in the order of the source.
\<close>

definition healthScoreSum :: "SellerStatus \<Rightarrow> int \<Rightarrow> string \<Rightarrow> int" where
  "healthScoreSum status recurringCount overallTrend =
    (let score0 = (50 :: int);
         score1 = (if sSentiment status = ''Positive'' then wrap64 (score0 + 20)
                   else if sSentiment status = ''Negative'' then wrap64 (score0 - 20)
                   else score0);
         score2 = wrap64 (score1 + wrap64 (wrap64 (sSatisfactionScore status - 5) * 4));
         score3 = (if ChurnRisk status = ''low'' then wrap64 (score2 + 15)
                   else if ChurnRisk status = ''high'' then wrap64 (score2 - 25)
                   else score2);
         issueImpact0 = wrap64 (OpenIssueCount status * 5);
         issueImpact = (if issueImpact0 > 30 then 30 else issueImpact0);
         score4 = wrap64 (score3 - issueImpact);
         score5 = wrap64 (score4 - wrap64 (recurringCount * 10))
     in if overallTrend = ''improving'' then wrap64 (score5 + 10)
        else if overallTrend = ''declining'' then wrap64 (score5 - 10)
        else score5)"

definition clampScore :: "int \<Rightarrow> int" where
  "clampScore score0 =
    (let score1 = (if score0 < 0 then 0 else score0)
     in if score1 > 100 then 100 else score1)"

definition healthLabel :: "int \<Rightarrow> string" where
  "healthLabel score =
    (if score \<ge> 70 then ''Healthy'' else if score \<ge> 40 then ''At Risk'' else ''Critical'')"

definition needsAttention :: "SellerStatus \<Rightarrow> int \<Rightarrow> string \<Rightarrow> SellerStatus" where
  "needsAttention status0 recurringCount overallTrend =
    (let status = status0 \<lparr> NeedsAttention := False, AttentionReason := '''' \<rparr>
     in if HealthScore status < 40
        then status \<lparr> NeedsAttention := True, AttentionReason := ''Critical health score'' \<rparr>
        else if ChurnRisk status = ''high''
        then status \<lparr> NeedsAttention := True, AttentionReason := ''High churn risk'' \<rparr>
        else if recurringCount > 0
        then status \<lparr> NeedsAttention := True,
               AttentionReason := show_int recurringCount @ '' recurring unresolved issues'' \<rparr>
        else if overallTrend = ''declining''
        then status \<lparr> NeedsAttention := True, AttentionReason := ''Declining trend detected'' \<rparr>
        else status)"

definition calculateCurrentStatus :: "SellerProfile \<Rightarrow> AnalysisResult \<Rightarrow> SellerProfile" where
  "calculateCurrentStatus profile analysis =
    (let status0 = (CurrentStatus profile)
           \<lparr> sSentiment := Sentiment (Intent analysis),
             sSatisfactionScore := SatisfactionScore (Intent analysis),
             ChurnRisk := IsLikelyToChurn (Churn analysis),
             ChurnProbability := RenewalProbability (Churn analysis),
             OpenIssueCount := int (length (ActiveIssues profile)),
             UpsellPotential :=
               (if HasOpportunity (Upsell analysis)
                then WillingnessToInvest (Upsell analysis) else ''low'') \<rparr>;
         recurringCount = int (length (filter IsRecurring (ActiveIssues profile)));
         score = clampScore (healthScoreSum status0 recurringCount (OverallTrend (Trends profile)));
         status1 = status0 \<lparr> HealthScore := score, HealthLabel := healthLabel score \<rparr>
     in profile \<lparr> CurrentStatus :=
          needsAttention status1 recurringCount (OverallTrend (Trends profile)) \<rparr>)"

section \<open>Maps and sorting\<close>

text \<open>
  A Go map that the code ranges over is an association list with distinct keys.
  \<^verbatim>\<open>for k, v := range m\<close> visits the entries in an order that Go leaves open; the model
  takes the order from a choice sequence: each number picks the next entry among those
  not yet visited. Every choice sequence gives a permutation of the entries, so a theorem
  for all choice sequences holds for every order of iteration.
\<close>

function rangeOrder :: "nat list \<Rightarrow> 'a list \<Rightarrow> 'a list" where
  "rangeOrder choices [] = []"
| "rangeOrder [] (x # xs) = x # xs"
| "rangeOrder (c # choices) (x # xs) =
     (let i = c mod length (x # xs)
      in (x # xs) ! i # rangeOrder choices (take i (x # xs) @ drop (Suc i) (x # xs)))"
  by pat_completeness auto
termination
  by (relation "measure (\<lambda>(choices, xs). length xs)") auto

text \<open>\<^verbatim>\<open>m[k]++\<close> on a \<^verbatim>\<open>map[string]int\<close> kept as an association list.\<close>

fun increment :: "'k \<Rightarrow> ('k \<times> int) list \<Rightarrow> ('k \<times> int) list" where
  "increment k [] = [(k, 1)]"
| "increment k ((k', v) # m) = (if k' = k then (k', v + 1) # m else (k', v) # increment k m)"

text \<open>
  \<^verbatim>\<open>sort.Slice(xs, less)\<close> leaves a permutation of \<open>xs\<close> in which no element is
  \<^verbatim>\<open>less\<close> than an earlier one; the order of elements that compare equal is not
  fixed by Go. The model sorts by insertion, which keeps equal elements in their input
  order; its argument \<open>before\<close> is Go's \<^verbatim>\<open>less\<close>. The lists sorted in this code
  come out of a map iteration, so with \<open>rangeOrder\<close> every sorted permutation is still
  reached by some choice sequence.
\<close>

fun insertSorted :: "('a \<Rightarrow> 'a \<Rightarrow> bool) \<Rightarrow> 'a \<Rightarrow> 'a list \<Rightarrow> 'a list" where
  "insertSorted before x [] = [x]"
| "insertSorted before x (y # ys) =
     (if before y x then y # insertSorted before x ys else x # y # ys)"

definition sortSlice :: "('a \<Rightarrow> 'a \<Rightarrow> bool) \<Rightarrow> 'a list \<Rightarrow> 'a list" where
  "sortSlice before xs = foldr (insertSorted before) xs []"

section \<open>TrendCalculator\<close>

text \<open>
  \<^verbatim>\<open>calculateTrendDirection\<close> (config.go). \<open>halfSums\<close> is the loop over
  \<^verbatim>\<open>recentPoints\<close> with its index \<open>i\<close> and the two running sums, which start at the
  zero value of \<^verbatim>\<open>float64\<close>. The constant \<^verbatim>\<open>0.1\<close> is not a \<^verbatim>\<open>float64\<close>: the compiler
  replaces it by the nearest one, \<open>round64 0.1\<close>, and \<^verbatim>\<open>-0.1\<close> by \<open>round64 (- 0.1)\<close>.
\<close>

fun halfSums ::
  "int \<Rightarrow> int \<Rightarrow> TrendPoint list \<Rightarrow> float64 \<times> float64 \<Rightarrow> float64 \<times> float64" where
  "halfSums mid i [] acc = acc"
| "halfSums mid i (p # ps) (firstHalf, secondHalf) =
     halfSums mid (i + 1) ps
       (if i < mid then (fadd firstHalf (Value p), secondHalf)
        else (firstHalf, fadd secondHalf (Value p)))"

definition calculateTrendDirection :: "TrendPoint list \<Rightarrow> string" where
  "calculateTrendDirection points =
    (if length points < 2 then ''stable''
     else
       let n = int (length points);
           start0 = n - 3;
           start = (if start0 < 0 then 0 else start0);
           recentPoints = drop (nat start) points;
           mid0 = int (length recentPoints) div 2;
           mid = (if mid0 = 0 then 1 else mid0);
           (firstHalf0, secondHalf0) = halfSums mid 0 recentPoints (Finite 0, Finite 0);
           firstHalf = fdiv firstHalf0 (float64_of_int mid);
           secondHalf = fdiv secondHalf0 (float64_of_int (int (length recentPoints) - mid));
           diff = fsub secondHalf firstHalf
       in if fless (round64 0.1) diff then ''improving''
          else if fless diff (round64 (- 0.1)) then ''declining''
          else ''stable'')"

text \<open>
  The policy in the words of the specification: the last three observations (or all, if
  there are fewer), a first half of \<open>\<lfloor>n/2\<rfloor>\<close> of them and at least one, the rest as second
  half, and the difference of the two averages against \<open>\<plusminus>0.1\<close>. It is written twice: in
  the arithmetic of \<^verbatim>\<open>float64\<close>, where an average is the sum from left to right divided
  by the number of values, and in exact arithmetic.
\<close>

definition average :: "float64 list \<Rightarrow> float64" where
  "average vs = fdiv (foldl fadd (Finite 0) vs) (float64_of_int (int (length vs)))"

definition trendPolicy :: "float64 list \<Rightarrow> string" where
  "trendPolicy vs =
    (if length vs < 2 then ''stable''
     else
       let recent = drop (length vs - 3) vs;
           k = max 1 (length recent div 2);
           d = fsub (average (drop k recent)) (average (take k recent))
       in if fless (round64 0.1) d then ''improving''
          else if fless d (round64 (- 0.1)) then ''declining''
          else ''stable'')"

definition exactAverage :: "real list \<Rightarrow> real" where
  "exactAverage vs = sum_list vs / real (length vs)"

definition exactPolicy :: "real list \<Rightarrow> string" where
  "exactPolicy vs =
    (if length vs < 2 then ''stable''
     else
       let recent = drop (length vs - 3) vs;
           k = max 1 (length recent div 2);
           d = exactAverage (drop k recent) - exactAverage (take k recent)
       in if d > 0.1 then ''improving'' else if d < - 0.1 then ''declining'' else ''stable'')"

text \<open>
  \<^verbatim>\<open>updateTrends\<close> (config.go). \<^verbatim>\<open>Timestamp.Format("2006-01-02")\<close> belongs to Go's
  time package and is passed in as \<open>formatDate\<close>.
\<close>

definition updateTrends ::
  "(time \<Rightarrow> string) \<Rightarrow> SellerProfile \<Rightarrow> AnalysisResult \<Rightarrow> SellerProfile" where
  "updateTrends formatDate profile analysis =
    (let date = formatDate (Timestamp analysis);
         sentimentValue =
           (if Sentiment (Intent analysis) = ''Positive'' then Finite 1
            else if Sentiment (Intent analysis) = ''Neutral'' then Finite 0.5
            else if Sentiment (Intent analysis) = ''Negative'' then Finite 0
            else Finite 0);
         trends1 = (Trends profile)
           \<lparr> SentimentHistory := SentimentHistory (Trends profile) @
               [\<lparr> Date = date, Value = sentimentValue,
                  Label = Sentiment (Intent analysis), pCallID = CallID analysis \<rparr>] \<rparr>;
         trends2 = trends1
           \<lparr> SatisfactionHistory := SatisfactionHistory trends1 @
               [\<lparr> Date = date, Value = float64_of_int (SatisfactionScore (Intent analysis)),
                  Label = '''', pCallID = CallID analysis \<rparr>] \<rparr>;
         trends3 = trends2
           \<lparr> IssueHistory := IssueHistory trends2 @
               [\<lparr> Date = date, Value = float64_of_int (int (length (Issues analysis))),
                  Label = '''', pCallID = CallID analysis \<rparr>] \<rparr>;
         churnValue =
           (if IsLikelyToChurn (Churn analysis) = ''high'' then Finite 1
            else if IsLikelyToChurn (Churn analysis) = ''medium'' then Finite 0.5
            else if IsLikelyToChurn (Churn analysis) = ''low'' then Finite 0
            else Finite 0);
         trends4 = trends3
           \<lparr> ChurnRiskHistory := ChurnRiskHistory trends3 @
               [\<lparr> Date = date, Value = churnValue,
                  Label = IsLikelyToChurn (Churn analysis), pCallID = CallID analysis \<rparr>] \<rparr>;
         trends5 = trends4
           \<lparr> SentimentTrend := calculateTrendDirection (SentimentHistory trends4),
             SatisfactionTrend := calculateTrendDirection (SatisfactionHistory trends4) \<rparr>;
         issueTrend = calculateTrendDirection (IssueHistory trends5);
         overallTrend =
           (if issueTrend = ''declining'' then ''improving''
            else if issueTrend = ''improving'' then ''declining''
            else SentimentTrend trends5)
     in profile \<lparr> Trends := trends5 \<lparr> OverallTrend := overallTrend \<rparr> \<rparr>)"

section \<open>IssueTracker\<close>

text \<open>\<^verbatim>\<open>isSameIssue\<close> and \<^verbatim>\<open>severityLevel\<close> (config.go).\<close>

definition isSameIssue :: "TrackedIssue \<Rightarrow> Issue \<Rightarrow> bool" where
  "isSameIssue tracked new = (if Bucket tracked \<noteq> iBucket new then False else True)"

definition severityLevel :: "string \<Rightarrow> int" where
  "severityLevel sev =
    (if sev = ''critical'' then 4
     else if sev = ''high'' then 3
     else if sev = ''medium'' then 2
     else if sev = ''low'' then 1
     else 0)"

text \<open>
  \<^verbatim>\<open>processIssues\<close> (config.go). \<open>matchIndex\<close> is the inner search loop (the index of
  the first active issue that is the same issue, or \<open>-1\<close>), \<open>trackIssue\<close> the body of
  the loop over the issues of the call, acting on the profile and on the set
  \<^verbatim>\<open>mentionedIssues\<close>, and \<open>resolveLoop\<close> the loop that moves unmentioned issues to
  the resolved list. \<^verbatim>\<open>time.Now()\<close> is passed in as \<open>now\<close>. The Go function changes
  the profile in place and returns the number of resolved issues; the model returns both.
\<close>

fun matchIndex :: "TrackedIssue list \<Rightarrow> Issue \<Rightarrow> int \<Rightarrow> int" where
  "matchIndex [] issue i = - 1"
| "matchIndex (active # rest) issue i =
     (if isSameIssue active issue then i else matchIndex rest issue (i + 1))"

definition newIssueID :: "string \<Rightarrow> string \<Rightarrow> int \<Rightarrow> string" where
  "newIssueID gluserID callID n = gluserID @ ''-'' @ callID @ ''-'' @ show_int n"

definition trackIssue ::
  "time \<Rightarrow> AnalysisResult \<Rightarrow> SellerProfile \<times> string set \<Rightarrow> Issue \<Rightarrow> SellerProfile \<times> string set" where
  "trackIssue now analysis state issue =
    (let (profile, mentionedIssues) = state;
         matchedIdx = matchIndex (ActiveIssues profile) issue 0
     in if matchedIdx \<ge> 0
        then
          let existing0 = ActiveIssues profile ! nat matchedIdx;
              existing1 = existing0
                \<lparr> LastMentionedAt := now,
                  MentionCount := MentionCount existing0 + 1,
                  CallIDs := CallIDs existing0 @ [CallID analysis] \<rparr>;
              existing2 = existing1 \<lparr> IsRecurring := (MentionCount existing1 \<ge> 2) \<rparr>;
              existing =
                (if severityLevel (iSeverity issue) > severityLevel (Severity existing2)
                 then existing2 \<lparr> Severity := iSeverity issue \<rparr> else existing2)
          in (profile \<lparr> ActiveIssues := (ActiveIssues profile) [nat matchedIdx := existing] \<rparr>,
              insert (IssueID existing) mentionedIssues)
        else
          let newIssue =
                \<lparr> IssueID = newIssueID (GluserID profile) (CallID analysis)
                              (int (length (ActiveIssues profile))),
                  Problem = iProblem issue,
                  Bucket = iBucket issue,
                  Severity = iSeverity issue,
                  ActionRequired = iActionableSummary issue,
                  Status = ''open'',
                  FirstReportedAt = now,
                  LastMentionedAt = now,
                  ResolvedAt = None,
                  MentionCount = 1,
                  CallIDs = [CallID analysis],
                  IsRecurring = False \<rparr>
          in (profile \<lparr> ActiveIssues := ActiveIssues profile @ [newIssue] \<rparr>,
              insert (IssueID newIssue) mentionedIssues))"

fun resolveLoop ::
  "time \<Rightarrow> string set \<Rightarrow> TrackedIssue list \<Rightarrow>
   TrackedIssue list \<times> TrackedIssue list \<times> int \<Rightarrow> TrackedIssue list \<times> TrackedIssue list \<times> int" where
  "resolveLoop now mentionedIssues [] state = state"
| "resolveLoop now mentionedIssues (active # rest) (resolvedIssues, stillActive, resolvedCount) =
     resolveLoop now mentionedIssues rest
       (if IssueID active \<notin> mentionedIssues
        then (resolvedIssues @ [active \<lparr> Status := ''resolved'', ResolvedAt := Some now \<rparr>],
              stillActive, resolvedCount + 1)
        else (resolvedIssues, stillActive @ [active], resolvedCount))"

definition processIssues ::
  "time \<Rightarrow> SellerProfile \<Rightarrow> AnalysisResult \<Rightarrow> SellerProfile \<times> int" where
  "processIssues now profile analysis =
    (let (profile1, mentionedIssues) =
           foldl (trackIssue now analysis) (profile, {}) (Issues analysis)
     in if PromptResolution (Intent analysis) \<and> length (ActiveIssues profile1) > 0
        then
          let (resolvedIssues, stillActive, resolvedCount) =
                resolveLoop now mentionedIssues (ActiveIssues profile1)
                  (ResolvedIssues profile1, [], 0)
          in (profile1 \<lparr> ResolvedIssues := resolvedIssues, ActiveIssues := stillActive \<rparr>,
              resolvedCount)
        else (profile1, 0))"

section \<open>Issue statistics\<close>

text \<open>
  \<^verbatim>\<open>updateIssueStats\<close> (config.go). \<^verbatim>\<open>bucketCounts\<close> is filled from the active and
  then the resolved issues and ranged over in the order given by \<open>choices\<close>.
  \<open>timeSub\<close> is \<^verbatim>\<open>Time.Sub\<close>, which stops at the least and the greatest
  \<^verbatim>\<open>Duration\<close>, and \<open>hours\<close> is \<^verbatim>\<open>Duration.Hours\<close> of the time package: the whole
  hours plus the remaining nanoseconds divided by the nanoseconds of an hour.
  \<open>addResolutionDays\<close> is the body of the loop that adds up \<^verbatim>\<open>totalDays\<close>.
\<close>

definition timeSub :: "time \<Rightarrow> time \<Rightarrow> int" where
  "timeSub t u =
    (let d = t - u
     in if d > 2 ^ 63 - 1 then 2 ^ 63 - 1 else if d < - (2 ^ 63) then - (2 ^ 63) else d)"

definition hours :: "int \<Rightarrow> float64" where
  "hours d =
    (let hour = goDiv d 3600000000000;
         nsec = goMod d 3600000000000
     in fadd (float64_of_int hour) (fdiv (float64_of_int nsec) (Finite 3600000000000)))"

definition addResolutionDays :: "float64 \<Rightarrow> TrackedIssue \<Rightarrow> float64" where
  "addResolutionDays totalDays issue =
    (case ResolvedAt issue of
       None \<Rightarrow> totalDays
     | Some resolvedAt \<Rightarrow>
         let days = fdiv (hours (timeSub resolvedAt (FirstReportedAt issue))) (Finite 24)
         in fadd totalDays days)"

definition updateIssueStats :: "nat list \<Rightarrow> SellerProfile \<Rightarrow> SellerProfile" where
  "updateIssueStats choices profile =
    (let stats1 = (IssueStats profile)
           \<lparr> TotalIssuesEver :=
               int (length (ActiveIssues profile)) + int (length (ResolvedIssues profile)),
             CurrentOpenCount := int (length (ActiveIssues profile)),
             ResolvedCount := int (length (ResolvedIssues profile)),
             RecurringCount := int (length (filter IsRecurring (ActiveIssues profile))) \<rparr>;
         stats2 =
           (if length (ResolvedIssues profile) > 0
            then stats1 \<lparr> AvgResolutionDays :=
                   fdiv (foldl addResolutionDays (Finite 0) (ResolvedIssues profile))
                     (float64_of_int (int (length (ResolvedIssues profile)))) \<rparr>
            else stats1);
         bucketCounts =
           foldl (\<lambda>m issue. increment (Bucket issue) m)
             (foldl (\<lambda>m issue. increment (Bucket issue) m) [] (ActiveIssues profile))
             (ResolvedIssues profile);
         topBuckets0 =
           map (\<lambda>(bucket, count). \<lparr> bcBucket = bucket, bcCount = count \<rparr>)
             (rangeOrder choices bucketCounts);
         topBuckets1 = sortSlice (\<lambda>a b. bcCount a > bcCount b) topBuckets0;
         topBuckets = (if length topBuckets1 > 5 then take 5 topBuckets1 else topBuckets1);
         severityBreakdown =
           foldl (\<lambda>m issue. m (Severity issue \<mapsto> lookup0 m (Severity issue) + 1))
             Map.empty (ActiveIssues profile)
     in profile \<lparr> IssueStats := stats2
          \<lparr> TopBuckets := topBuckets, SeverityBreakdown := severityBreakdown \<rparr> \<rparr>)"

section \<open>ProfileReconciler\<close>

text \<open>
  \<^verbatim>\<open>UpdateSellerProfile\<close> (config.go). What the function takes from outside is
  gathered in \<open>Env\<close>: the three readings of \<^verbatim>\<open>time.Now()\<close> (at the creation of a new
  profile, in \<^verbatim>\<open>processIssues\<close> and in \<^verbatim>\<open>SaveSellerProfile\<close>), the date format,
  the order of the map iteration and whether the write to storage fails. The result of
  \<^verbatim>\<open>LoadSellerProfile\<close> is the argument \<open>loaded\<close>: an error, no profile, or the stored
  profile. Both Go errors become \<open>Inl\<close> results. The zero \<^verbatim>\<open>time.Time\<close> is the first
  instant of year 1.
\<close>

datatype error = LoadFailed | SaveFailed

record Env =
  formatDate :: "time \<Rightarrow> string"
  nowCreate :: time
  nowIssues :: time
  nowSave :: time
  rangeChoices :: "nat list"
  saveFails :: bool

definition zeroTime :: time where
  "zeroTime = - 62135596800 * 1000000000"

definition zeroStatus :: SellerStatus where
  "zeroStatus =
    \<lparr> HealthScore = 0, HealthLabel = '''', ChurnRisk = '''', ChurnProbability = Finite 0,
      sSentiment = '''', sSatisfactionScore = 0, OpenIssueCount = 0, UpsellPotential = '''',
      NeedsAttention = False, AttentionReason = '''' \<rparr>"

definition newProfile :: "string \<Rightarrow> time \<Rightarrow> SellerProfile" where
  "newProfile gluserID now =
    \<lparr> GluserID = gluserID, CustomerType = '''', CityName = '''', Vertical = '''',
      VintageMonths = 0, CurrentStatus = zeroStatus, TotalCalls = 0,
      CallHistory = [], ActiveIssues = [], ResolvedIssues = [],
      IssueStats =
        \<lparr> TotalIssuesEver = 0, CurrentOpenCount = 0, ResolvedCount = 0, RecurringCount = 0,
          AvgResolutionDays = Finite 0, TopBuckets = [], SeverityBreakdown = Map.empty \<rparr>,
      Trends =
        \<lparr> SentimentHistory = [], SatisfactionHistory = [], IssueHistory = [],
          SentimentTrend = '''', SatisfactionTrend = '''', OverallTrend = '''',
          ChurnRiskHistory = [] \<rparr>,
      SellerCategories = [], CreatedAt = now, UpdatedAt = zeroTime, LastCallAt = zeroTime \<rparr>"

definition UpdateSellerProfile ::
  "Env \<Rightarrow> error + SellerProfile option \<Rightarrow> string \<Rightarrow> AnalysisResult \<Rightarrow>
   HackathonTranscript option \<Rightarrow> error + SellerProfile" where
  "UpdateSellerProfile env loaded gluserID analysis ht =
    (case loaded of
       Inl err \<Rightarrow> Inl LoadFailed
     | Inr stored \<Rightarrow>
        let profile0 =
              (case stored of None \<Rightarrow> newProfile gluserID (nowCreate env) | Some p \<Rightarrow> p);
            profile1 =
              (case ht of
                 None \<Rightarrow> profile0
               | Some h \<Rightarrow> profile0
                   \<lparr> CustomerType := htCustomerType h,
                     CityName := htCityName h,
                     Vertical := IILVerticalName h,
                     VintageMonths := htVintageMonths h,
                     SellerCategories := map McatName (htSellerCategories h) \<rparr>);
            callSummary0 =
              \<lparr> cCallID = CallID analysis,
                cTimestamp = Timestamp analysis,
                Duration = 0,
                Direction = '''',
                Summary = CallSummaryText analysis,
                cSentiment = Sentiment (Intent analysis),
                IssuesRaised = int (length (Issues analysis)),
                IssuesResolved = 0,
                cAgentPerformance = AgentPerformance analysis,
                WasEscalated = False,
                FollowUpNeeded = False \<rparr>;
            callSummary1 =
              (case ht of
                 None \<Rightarrow> callSummary0
               | Some h \<Rightarrow> callSummary0 \<lparr> Duration := CallDuration h, Direction := FlagInOut h \<rparr>);
            callSummary =
              (case LLMRaw analysis of
                 None \<Rightarrow> callSummary1
               | Some raw \<Rightarrow>
                   let withEscalation =
                         (case raw ''escalation_required'' of
                            Some (JBool esc) \<Rightarrow> callSummary1 \<lparr> WasEscalated := esc \<rparr>
                          | _ \<Rightarrow> callSummary1)
                   in (case raw ''follow_up_needed'' of
                         Some (JBool fu) \<Rightarrow> withEscalation \<lparr> FollowUpNeeded := fu \<rparr>
                       | _ \<Rightarrow> withEscalation));
            profile2 = profile1
              \<lparr> CallHistory := callSummary # CallHistory profile1,
                TotalCalls := TotalCalls profile1 + 1,
                LastCallAt := Timestamp analysis \<rparr>;
            (profile3, issuesResolved) = processIssues (nowIssues env) profile2 analysis;
            profile4 = profile3
              \<lparr> CallHistory := (CallHistory profile3)
                  [0 := (CallHistory profile3 ! 0) \<lparr> IssuesResolved := issuesResolved \<rparr>] \<rparr>;
            profile5 = updateTrends (formatDate env) profile4 analysis;
            profile6 = calculateCurrentStatus profile5 analysis;
            profile7 = updateIssueStats (rangeChoices env) profile6;
            profile8 = profile7 \<lparr> UpdatedAt := nowSave env \<rparr>
        in if saveFails env then Inl SaveFailed else Inr profile8)"

text \<open>
  A run of the reconciler for one account: the stored profile (none at first) is loaded,
  updated and written back for each call in turn. A call whose load or save fails leaves
  the stored profile as it was.
\<close>

record Reconciliation =
  rEnv :: Env
  loadFails :: bool
  rAnalysis :: AnalysisResult
  rTranscript :: "HackathonTranscript option"

fun reconcile ::
  "string \<Rightarrow> SellerProfile option \<Rightarrow> Reconciliation list \<Rightarrow> SellerProfile option" where
  "reconcile gluserID stored [] = stored"
| "reconcile gluserID stored (r # rs) =
     (case UpdateSellerProfile (rEnv r)
             (if loadFails r then Inl LoadFailed else Inr stored)
             gluserID (rAnalysis r) (rTranscript r) of
        Inl err \<Rightarrow> reconcile gluserID stored rs
      | Inr profile \<Rightarrow> reconcile gluserID (Some profile) rs)"

section \<open>Aggregator\<close>

text \<open>
  \<^verbatim>\<open>buildAggregate\<close> (service.go). \<open>AggLoop\<close> holds what the loop over the analyses
  updates: the aggregate itself, the four per-bucket maps and the two satisfaction
  counters. \<^verbatim>\<open>bucketProblems\<close> is ranged over later and is an association list (of
  association lists); the other maps are only read at a key, a missing key giving the
  empty value. The set of sellers of a bucket is a list without duplicates.
  \<open>aggregateIssue\<close> is the body of the inner loop, \<open>aggregateAnalysis\<close> the body of the
  outer one.
\<close>

record AggLoop =
  lAgg :: DailyAggregate
  bucketSellers :: "string \<Rightarrow> string list"
  bucketProblems :: "(string \<times> (string \<times> int) list) list"
  bucketSeverity :: "string \<Rightarrow> (string \<rightharpoonup> int)"
  bucketExamples :: "string \<Rightarrow> string list"
  totalSatisfaction :: int
  satisfactionCount :: int

fun incrementIn ::
  "string \<Rightarrow> string \<Rightarrow> (string \<times> (string \<times> int) list) list \<Rightarrow>
   (string \<times> (string \<times> int) list) list" where
  "incrementIn bucket problem [] = [(bucket, [(problem, 1)])]"
| "incrementIn bucket problem ((b, m) # rest) =
     (if b = bucket then (b, increment problem m) # rest
      else (b, m) # incrementIn bucket problem rest)"

definition aggregateIssue :: "string \<Rightarrow> AggLoop \<Rightarrow> Issue \<Rightarrow> AggLoop" where
  "aggregateIssue sellerID st issue =
    (let bucket = iBucket issue;
         st1 = st
           \<lparr> lAgg := (lAgg st) \<lparr> TotalIssues := TotalIssues (lAgg st) + 1 \<rparr>,
             bucketSellers := (bucketSellers st)
               (bucket := List.insert sellerID (bucketSellers st bucket)),
             bucketProblems := incrementIn bucket (iProblem issue) (bucketProblems st),
             bucketSeverity := (bucketSeverity st)
               (bucket := (bucketSeverity st bucket)
                  (iSeverity issue \<mapsto> lookup0 (bucketSeverity st bucket) (iSeverity issue) + 1)) \<rparr>
     in if length (bucketExamples st1 bucket) < 3
        then st1 \<lparr> bucketExamples := (bucketExamples st1)
               (bucket := bucketExamples st1 bucket @ [iActionableSummary issue]) \<rparr>
        else st1)"

definition aggregateAnalysis :: "AggLoop \<Rightarrow> AnalysisResult \<Rightarrow> AggLoop" where
  "aggregateAnalysis st a =
    (let agg0 = lAgg st;
         agg1 =
           (if Sentiment (Intent a) \<noteq> ''''
            then agg0 \<lparr> SentimentBreakdown := (SentimentBreakdown agg0)
                   (Sentiment (Intent a) \<mapsto>
                      lookup0 (SentimentBreakdown agg0) (Sentiment (Intent a)) + 1) \<rparr>
            else agg0);
         agg2 =
           (if IsLikelyToChurn (Churn a) \<noteq> ''''
            then agg1 \<lparr> ChurnRiskBreakdown := (ChurnRiskBreakdown agg1)
                   (IsLikelyToChurn (Churn a) \<mapsto>
                      lookup0 (ChurnRiskBreakdown agg1) (IsLikelyToChurn (Churn a)) + 1) \<rparr>
            else agg1);
         agg3 =
           (if HasOpportunity (Upsell a)
            then agg2 \<lparr> UpsellOpportunities := UpsellOpportunities agg2 + 1 \<rparr>
            else agg2);
         st1 = st \<lparr> lAgg := agg3 \<rparr>;
         st2 =
           (if SatisfactionScore (Intent a) > 0
            then st1
              \<lparr> totalSatisfaction := wrap64 (totalSatisfaction st1 + SatisfactionScore (Intent a)),
                satisfactionCount := satisfactionCount st1 + 1 \<rparr>
            else st1)
     in foldl (aggregateIssue (SellerID a)) st2 (Issues a))"

definition bucketSummary ::
  "(string \<Rightarrow> nat list) \<Rightarrow> AggLoop \<Rightarrow> string \<Rightarrow> (string \<times> int) list \<Rightarrow> BucketSummary" where
  "bucketSummary problemChoices st bucket problems =
    (let sorted0 = rangeOrder (problemChoices bucket) problems;
         sorted1 = sortSlice (\<lambda>a b. snd a > snd b) sorted0;
         top = take 5 sorted1;
         topProblems =
           map (\<lambda>(problem, count).
                  \<lparr> pcProblem = problem, pcCount = count, pcSeverity = ''medium'' \<rparr>) top;
         totalCount = sum_list (map snd top)
     in \<lparr> bsBucket = bucket,
          TotalCount = totalCount,
          AffectedSellers = int (length (bucketSellers st bucket)),
          AffectedSellerIDs = [],
          bsTopProblems = topProblems,
          bsSeverityBreakdown = bucketSeverity st bucket,
          bsExamples = bucketExamples st bucket \<rparr>)"

definition buildAggregate ::
  "time \<Rightarrow> nat list \<Rightarrow> (string \<Rightarrow> nat list) \<Rightarrow> string \<Rightarrow> AnalysisResult list \<Rightarrow> DailyAggregate" where
  "buildAggregate now choices problemChoices date analyses =
    (let agg0 =
           \<lparr> aDate = date, aTotalCalls = int (length analyses), TotalIssues = 0,
             FeatureBuckets = [], SentimentBreakdown = Map.empty,
             ChurnRiskBreakdown = Map.empty, UpsellOpportunities = 0,
             AvgSatisfaction = Finite 0, GeneratedAt = now \<rparr>;
         st0 =
           \<lparr> lAgg = agg0, bucketSellers = (\<lambda>bucket. []), bucketProblems = [],
             bucketSeverity = (\<lambda>bucket. Map.empty), bucketExamples = (\<lambda>bucket. []),
             totalSatisfaction = 0, satisfactionCount = 0 \<rparr>;
         st = foldl aggregateAnalysis st0 analyses;
         agg1 =
           (if satisfactionCount st > 0
            then (lAgg st) \<lparr> AvgSatisfaction :=
                   fdiv (float64_of_int (totalSatisfaction st))
                     (float64_of_int (satisfactionCount st)) \<rparr>
            else lAgg st)
     in agg1 \<lparr> FeatureBuckets :=
          map (\<lambda>(bucket, problems). (bucket, bucketSummary problemChoices st bucket problems))
            (rangeOrder choices (bucketProblems st)) \<rparr>)"

text \<open>
  The satisfaction scores that count for the average, in the words of the specification:
  those strictly greater than 0.
\<close>

definition positiveScores :: "AnalysisResult list \<Rightarrow> int list" where
  "positiveScores analyses =
     filter (\<lambda>score. score > 0) (map (\<lambda>a. SatisfactionScore (Intent a)) analyses)"

section \<open>TicketGenerator\<close>

text \<open>
  \<^verbatim>\<open>generateTickets\<close> (service.go). \<open>makeTicket\<close> is the body of the loop over the
  significant buckets, \<open>ticketLoop\<close> the loop with its \<^verbatim>\<open>break\<close> and its running
  \<^verbatim>\<open>priority\<close>. \<^verbatim>\<open>sanitize\<close> rests on Go's Unicode tables and is passed in, as are
  \<^verbatim>\<open>time.Now()\<close> and the order of the iteration over \<^verbatim>\<open>agg.FeatureBuckets\<close>. The
  log line has no effect on the result.
\<close>

definition newline :: string where
  "newline = [CHR 0x0A]"

definition bullet :: string where
  "bullet = [CHR 0xE2, CHR 0x80, CHR 0xA2]"

fun joinStrings :: "string list \<Rightarrow> string \<Rightarrow> string" where
  "joinStrings [] sep = ''''"
| "joinStrings [x] sep = x"
| "joinStrings (x # y # ys) sep = x @ sep @ joinStrings (y # ys) sep"

definition show_bool :: "bool \<Rightarrow> string" where
  "show_bool b = (if b then ''true'' else ''false'')"

definition makeTicket ::
  "time \<Rightarrow> (string \<Rightarrow> string) \<Rightarrow> string \<Rightarrow> int \<Rightarrow> string \<times> BucketSummary \<Rightarrow> Ticket" where
  "makeTicket now sanitize date priority entry =
    (let (bucket, summary) = entry;
         severity =
           (if TotalCount summary \<ge> 10 then ''critical''
            else if TotalCount summary \<ge> 5 then ''high''
            else ''medium'');
         isRecurring = (AffectedSellers summary > 1);
         problemSummaries =
           map (\<lambda>p. bullet @ '' '' @ pcProblem p @ '' (x'' @ show_int (pcCount p) @ '')'')
             (take 3 (bsTopProblems summary));
         consolidatedProblems = joinStrings problemSummaries newline;
         titleProblem =
           (case bsTopProblems summary of
              [] \<Rightarrow> ''Multiple issues reported''
            | p # ps \<Rightarrow>
                if length (pcProblem p) > 60 then take 57 (pcProblem p) @ ''...''
                else pcProblem p)
     in \<lparr> TicketID = date @ ''-'' @ sanitize bucket @ ''-01'',
          tDate = date,
          FeatureBucket = bucket,
          Priority = priority,
          Title = ''['' @ bucket @ ''] '' @ titleProblem @ '' ('' @ show_int (TotalCount summary)
            @ '' issues from '' @ show_int (AffectedSellers summary) @ '' sellers)'',
          Description =
            ''Auto-generated ticket for **'' @ bucket @ ''** issues.'' @ newline @ newline
            @ ''## Summary'' @ newline
            @ ''- **Total Issues:** '' @ show_int (TotalCount summary) @ newline
            @ ''- **Affected Sellers:** '' @ show_int (AffectedSellers summary) @ newline
            @ ''- **Recurring Across Sellers:** '' @ show_bool isRecurring @ newline
            @ ''- **Severity:** '' @ severity @ newline
            @ ''- **Date:** '' @ date @ newline @ newline
            @ ''## Top Problems in This Category'' @ newline
            @ consolidatedProblems @ newline @ newline
            @ ''## Severity Breakdown'' @ newline
            @ ''- Critical: '' @ show_int (lookup0 (bsSeverityBreakdown summary) ''critical'') @ newline
            @ ''- High: '' @ show_int (lookup0 (bsSeverityBreakdown summary) ''high'') @ newline
            @ ''- Medium: '' @ show_int (lookup0 (bsSeverityBreakdown summary) ''medium'') @ newline
            @ ''- Low: '' @ show_int (lookup0 (bsSeverityBreakdown summary) ''low'') @ newline @ newline
            @ ''_This ticket groups all '' @ bucket
            @ '' issues together. Review individual analyses for details._'',
          tTopProblems = bsTopProblems summary,
          AffectedCount = TotalCount summary,
          tAffectedSellers = [],
          tExamples = bsExamples summary,
          tSeverity = severity,
          tStatus = ''open'',
          tCreatedAt = now \<rparr>)"

fun ticketLoop ::
  "time \<Rightarrow> (string \<Rightarrow> string) \<Rightarrow> string \<Rightarrow> int \<Rightarrow>
   (string \<times> BucketSummary) list \<Rightarrow> Ticket list \<Rightarrow> int \<Rightarrow> Ticket list" where
  "ticketLoop now sanitize date maxTickets [] tickets priority = tickets"
| "ticketLoop now sanitize date maxTickets (entry # rest) tickets priority =
     (if int (length tickets) \<ge> maxTickets then tickets
      else ticketLoop now sanitize date maxTickets rest
             (tickets @ [makeTicket now sanitize date priority entry]) (priority + 1))"

definition generateTickets ::
  "time \<Rightarrow> (string \<Rightarrow> string) \<Rightarrow> nat list \<Rightarrow> string \<Rightarrow> DailyAggregate \<Rightarrow> Ticket list" where
  "generateTickets now sanitize choices date agg =
    (let priority = 1;
         maxTickets = 5;
         minBucketCount = 3;
         significantBuckets0 =
           filter (\<lambda>(bucket, summary). TotalCount summary \<ge> minBucketCount)
             (rangeOrder choices (FeatureBuckets agg));
         significantBuckets =
           sortSlice (\<lambda>a b. TotalCount (snd a) > TotalCount (snd b)) significantBuckets0
     in ticketLoop now sanitize date maxTickets significantBuckets [] priority)"

section \<open>Notions used in the statements about the issue tracker\<close>

text \<open>
  The identifiers of all tracked issues of a profile, and the (identifier, category)
  pairs of its active issues.
\<close>

definition issueIDs :: "SellerProfile \<Rightarrow> string list" where
  "issueIDs p = map IssueID (ActiveIssues p) @ map IssueID (ResolvedIssues p)"

definition issuePairs :: "SellerProfile \<Rightarrow> (string \<times> string) list" where
  "issuePairs p = map (\<lambda>t. (IssueID t, Bucket t)) (ActiveIssues p)"

text \<open>
  \<open>tracked g S p\<close>: the profile belongs to account \<open>g\<close>, its issue identifiers are
  pairwise distinct and each was made for one of the calls in \<open>S\<close>. \<open>tracking g c S p\<close>
  is the same in the middle of call \<open>c\<close>: an identifier may also have been made for
  \<open>c\<close>, with a number below the current length of the active list.
\<close>

definition tracked :: "string \<Rightarrow> string set \<Rightarrow> SellerProfile \<Rightarrow> bool" where
  "tracked g S p \<longleftrightarrow>
     GluserID p = g \<and> distinct (issueIDs p) \<and>
     (\<forall>id \<in> set (issueIDs p). \<exists>c \<in> S. \<exists>n. id = newIssueID g c (int n))"

definition tracking :: "string \<Rightarrow> string \<Rightarrow> string set \<Rightarrow> SellerProfile \<Rightarrow> bool" where
  "tracking g c S p \<longleftrightarrow>
     GluserID p = g \<and> distinct (issueIDs p) \<and>
     (\<forall>id \<in> set (issueIDs p).
        (\<exists>c' \<in> S. \<exists>n. id = newIssueID g c' (int n)) \<or>
        (\<exists>n < length (ActiveIssues p). id = newIssueID g c (int n)))"

text \<open>
  Two counts for a category of a profile: the sum of the mention counts of its tracked
  issues (what the specification calls the total mentions ever), and the number of its
  tracked issues.
\<close>

definition totalMentions :: "SellerProfile \<Rightarrow> string \<Rightarrow> int" where
  "totalMentions p bucket =
     sum_list (map MentionCount
       (filter (\<lambda>t. Bucket t = bucket) (ActiveIssues p @ ResolvedIssues p)))"

definition issueCount :: "SellerProfile \<Rightarrow> string \<Rightarrow> int" where
  "issueCount p bucket =
     int (length (filter (\<lambda>t. Bucket t = bucket) (ActiveIssues p @ ResolvedIssues p)))"

text \<open>
  The readings of the clock in a run of reconciliations, in the order in which the code
  takes them; the reading at the creation of a profile is listed for every call, though
  only a call that finds no stored profile uses it.
\<close>

definition clockReadings :: "Reconciliation list \<Rightarrow> time list" where
  "clockReadings rs =
     concat (map (\<lambda>r. [nowCreate (rEnv r), nowIssues (rEnv r), nowSave (rEnv r)]) rs)"

section \<open>Example inputs\<close>

text \<open>Concrete calls and profiles at which the theorems below are instantiated.\<close>

definition exampleIssue :: "string \<Rightarrow> string \<Rightarrow> string \<Rightarrow> Issue" where
  "exampleIssue problem bucket severity =
    \<lparr> iProblem = problem, iBucket = bucket, iSeverity = severity,
      iActionableSummary = '''', iKeywords = [] \<rparr>"

definition exampleAnalysis ::
  "string \<Rightarrow> Issue list \<Rightarrow> string \<Rightarrow> int \<Rightarrow> bool \<Rightarrow> string \<Rightarrow> AnalysisResult" where
  "exampleAnalysis callID issues sentiment satisfaction resolution churn =
    \<lparr> CallID = callID, SellerID = ''s1'', Timestamp = 0, TranscriptEn = '''',
      OriginalLang = '''', Issues = issues,
      Intent = \<lparr> Sentiment = sentiment, SatisfactionScore = satisfaction,
                 PromptResolution = resolution, OverallExperience = '''' \<rparr>,
      Churn = \<lparr> IsLikelyToChurn = churn, RenewalAtRisk = False, DissatisfactionLevel = '''',
                ChurnReason = '''', RenewalProbability = Finite 0 \<rparr>,
      Upsell = \<lparr> HasOpportunity = False, Score = 0, WillingnessToInvest = '''',
                 IsGrowthOriented = False, InterestedFeatures = [], UpsellReason = '''' \<rparr>,
      CallSummaryText = '''', AgentPerformance = '''', LLMRaw = None, AnalyzedAt = 0 \<rparr>"

definition exampleTracked :: "string \<Rightarrow> string \<Rightarrow> int \<Rightarrow> TrackedIssue" where
  "exampleTracked issueID bucket mentions =
    \<lparr> IssueID = issueID, Problem = ''p'', Bucket = bucket, Severity = ''high'',
      ActionRequired = '''', Status = ''open'', FirstReportedAt = 1, LastMentionedAt = 1,
      ResolvedAt = None, MentionCount = mentions, CallIDs = [''c0''],
      IsRecurring = (mentions \<ge> 2) \<rparr>"

definition examplePoint :: "real \<Rightarrow> TrendPoint" where
  "examplePoint v = \<lparr> Date = ''2025-12-12'', Value = Finite v, Label = '''', pCallID = '''' \<rparr>"

text \<open>
  The scenario of the specification: one Billing issue of severity high, negative
  sentiment, satisfaction 2, high churn risk; \<open>billingProfile\<close> is the profile of a new
  account once that issue is tracked.
\<close>

definition billingCall :: AnalysisResult where
  "billingCall = exampleAnalysis ''c1'' [exampleIssue ''double charge'' ''Billing'' ''high'']
     ''Negative'' 2 False ''high''"

definition billingProfile :: SellerProfile where
  "billingProfile = (newProfile ''g'' 0)
     \<lparr> ActiveIssues := [exampleTracked ''g-c1-0'' ''Billing'' 1],
       Trends := (Trends (newProfile ''g'' 0)) \<lparr> OverallTrend := ''stable'' \<rparr> \<rparr>"

text \<open>A call without issues after a call with three.\<close>

definition quietCall :: AnalysisResult where
  "quietCall = exampleAnalysis ''c2'' [] ''Neutral'' 5 False ''low''"

definition busyProfile :: SellerProfile where
  "busyProfile = (newProfile ''g'' 0)
     \<lparr> Trends := (Trends (newProfile ''g'' 0)) \<lparr> IssueHistory := [examplePoint 3] \<rparr> \<rparr>"

text \<open>The period of the specification: categories A, B and C with 12, 4 and 2 issues.\<close>

definition exampleSummary :: "string \<Rightarrow> int \<Rightarrow> BucketSummary" where
  "exampleSummary bucket n =
    \<lparr> bsBucket = bucket, TotalCount = n, AffectedSellers = 2, AffectedSellerIDs = [],
      bsTopProblems = [\<lparr> pcProblem = ''p'', pcCount = n, pcSeverity = ''medium'' \<rparr>],
      bsSeverityBreakdown = Map.empty, bsExamples = [] \<rparr>"

definition exampleAggregate :: DailyAggregate where
  "exampleAggregate =
    \<lparr> aDate = ''2025-12-12'', aTotalCalls = 9, TotalIssues = 18,
      FeatureBuckets =
        [(''C'', exampleSummary ''C'' 2), (''B'', exampleSummary ''B'' 4),
         (''A'', exampleSummary ''A'' 12)],
      SentimentBreakdown = Map.empty, ChurnRiskBreakdown = Map.empty,
      UpsellOpportunities = 0, AvgSatisfaction = Finite 0, GeneratedAt = 0 \<rparr>"

definition scoredCalls :: "AnalysisResult list" where
  "scoredCalls =
    [exampleAnalysis ''c1'' [] ''Positive'' 4 False ''low'',
     exampleAnalysis ''c2'' [] ''Neutral'' 0 False ''low'',
     exampleAnalysis ''c3'' [exampleIssue ''double charge'' ''Billing'' ''high''] ''Negative'' (- 1) False ''high'',
     exampleAnalysis ''c4'' [] ''Neutral'' 2 False ''medium'']"

text \<open>An account with two active issues, and a call that mentions one of them and signals resolution.\<close>

definition twoIssueProfile :: SellerProfile where
  "twoIssueProfile = (newProfile ''g'' 0)
     \<lparr> ActiveIssues := [exampleTracked ''g-c0-0'' ''Billing'' 1, exampleTracked ''g-c0-1'' ''Leads'' 1] \<rparr>"

definition resolvingCall :: AnalysisResult where
  "resolvingCall = exampleAnalysis ''c2'' [exampleIssue ''double charge'' ''Billing'' ''low'']
     ''Positive'' 8 True ''low''"

text \<open>A call that signals resolution and reports no issue at all.\<close>

definition closingCall :: AnalysisResult where
  "closingCall = exampleAnalysis ''c3'' [] ''Positive'' 9 True ''low''"

text \<open>
  A call that reports two issues of one category, and an account whose Billing issue
  is mentioned in two calls.
\<close>

definition duplicateCall :: AnalysisResult where
  "duplicateCall = exampleAnalysis ''c1''
     [exampleIssue ''double charge'' ''Billing'' ''high'',
      exampleIssue ''refund pending'' ''Billing'' ''low'']
     ''Negative'' 2 False ''high''"

definition followUpCall :: AnalysisResult where
  "followUpCall = exampleAnalysis ''c2'' [exampleIssue ''still charged twice'' ''Billing'' ''high'']
     ''Negative'' 3 False ''high''"

definition recurringProfile :: SellerProfile where
  "recurringProfile =
     fst (processIssues 2 (fst (processIssues 1 (newProfile ''g'' 0) billingCall)) followUpCall)"

text \<open>Two reconciliations of one account, ten clock ticks apart.\<close>

definition exampleEnv :: "time \<Rightarrow> Env" where
  "exampleEnv t =
    \<lparr> formatDate = (\<lambda>t. ''2025-12-12''), nowCreate = t, nowIssues = t + 1, nowSave = t + 2,
      rangeChoices = [], saveFails = False \<rparr>"

definition exampleRun :: "Reconciliation list" where
  "exampleRun =
    [\<lparr> rEnv = exampleEnv 10, loadFails = False, rAnalysis = billingCall, rTranscript = None \<rparr>,
     \<lparr> rEnv = exampleEnv 20, loadFails = False, rAnalysis = resolvingCall, rTranscript = None \<rparr>]"

text \<open>
  Three observations of the same very large value, and three observations of which the
  last is the \<^verbatim>\<open>float64\<close> nearest to 1.2.
\<close>

definition hugePoints :: "TrendPoint list" where
  "hugePoints = map examplePoint [2 ^ 1023, 2 ^ 1023, 2 ^ 1023]"

definition nearPoints :: "TrendPoint list" where
  "nearPoints = map examplePoint [1, 1, 5404319552844595 / 4503599627370496]"

text \<open>
  Batches of assessments for the average satisfaction: scores 1, 1 and 2; the greatest
  \<^verbatim>\<open>int\<close> and 1; a single score that is not a \<^verbatim>\<open>float64\<close>.
\<close>

definition thirdsCalls :: "AnalysisResult list" where
  "thirdsCalls =
    [exampleAnalysis ''c1'' [] ''Neutral'' 1 False ''low'',
     exampleAnalysis ''c2'' [] ''Neutral'' 1 False ''low'',
     exampleAnalysis ''c3'' [] ''Neutral'' 2 False ''low'']"

definition overflowCalls :: "AnalysisResult list" where
  "overflowCalls =
    [exampleAnalysis ''c1'' [] ''Positive'' (2 ^ 63 - 1) False ''low'',
     exampleAnalysis ''c2'' [] ''Positive'' 1 False ''low'']"

definition roundedCalls :: "AnalysisResult list" where
  "roundedCalls = [exampleAnalysis ''c1'' [] ''Positive'' (2 ^ 53 + 1) False ''low'']"

text \<open>
  Calls without a call identifier that report one issue of a given category, and the
  profile of a new account after two of them: a Billing issue, then a Leads issue with
  the resolution signal.
\<close>

definition unnamedCall :: "string \<Rightarrow> bool \<Rightarrow> AnalysisResult" where
  "unnamedCall bucket resolution =
     exampleAnalysis '''' [exampleIssue ''problem'' bucket ''low''] ''Neutral'' 5 resolution ''low''"

definition collidingProfile :: SellerProfile where
  "collidingProfile =
     fst (processIssues 2
            (fst (processIssues 1 (newProfile ''g'' 0) (unnamedCall ''Billing'' False)))
            (unnamedCall ''Leads'' True))"

text \<open>A reconciliation during which the clock is set back.\<close>

definition skewedRun :: "Reconciliation list" where
  "skewedRun =
    [\<lparr> rEnv = (exampleEnv 10) \<lparr> nowSave := 5 \<rparr>, loadFails = False, rAnalysis = billingCall,
       rTranscript = None \<rparr>]"

section \<open>Properties of the floating-point operations\<close>

text \<open>
  \<open>exponentOf\<close> is the exponent it is meant to be, and a number of the form \<open>m * 2 ^ q\<close>
  with \<open>\<bar>m\<bar> < 2 ^ 53\<close> and \<open>- 1074 \<le> q \<le> 971\<close> is left alone by \<open>round64\<close>; these are
  the numbers that \<open>round64\<close> returns. In particular the conversion of an integer of
  magnitude up to \<open>2 ^ 53\<close> is exact, and so is the doubling of a number below \<open>2 ^ 1023\<close>.
\<close>

lemma pow2_powr: "pow2 e = 2 powr real_of_int e"
proof (cases "e \<ge> 0")
  case True
  then have "2 powr real_of_int e = 2 powr real (nat e)" by simp
  also have "\<dots> = 2 ^ nat e" by (simp add: powr_realpow)
  finally show ?thesis using True by (simp add: pow2_def)
next
  case False
  then have "2 powr real_of_int e = 2 powr (- real (nat (- e)))" by simp
  also have "\<dots> = 1 / 2 ^ nat (- e)" by (simp add: powr_minus_divide powr_realpow)
  finally show ?thesis using False by (simp add: pow2_def)
qed

lemma pow2_pos [simp]: "0 < pow2 e"
  by (simp add: pow2_powr)

lemma pow2_add: "pow2 (a + b) = pow2 a * pow2 b"
  by (simp add: pow2_powr powr_add)

lemma pow2_diff: "pow2 (a - b) = pow2 a / pow2 b"
  by (simp add: pow2_powr powr_diff)

lemma pow2_less [simp]: "pow2 a < pow2 b \<longleftrightarrow> a < b"
  by (simp add: pow2_powr)

lemma pow2_le [simp]: "pow2 a \<le> pow2 b \<longleftrightarrow> a \<le> b"
  by (simp add: pow2_powr)

lemma pow2_nat: "0 \<le> e \<Longrightarrow> pow2 e = of_int (2 ^ nat e)"
  by (simp add: pow2_def)

lemma bitLength_bounds: "0 < n \<Longrightarrow> 2 ^ (bitLength n - 1) \<le> n \<and> n < 2 ^ bitLength n"
proof (induction n rule: bitLength.induct)
  case (1 n)
  show ?case
  proof (cases "n div 2 = 0")
    case True
    with 1 have "n = 1" by (simp add: div_eq_0_iff) 
    then show ?thesis by (simp add: bitLength.simps)
  next
    case False
    with 1 have ih: "2 ^ (bitLength (n div 2) - 1) \<le> n div 2" "n div 2 < 2 ^ bitLength (n div 2)"
      by simp_all
    have pos: "bitLength (n div 2) > 0" using False by (subst bitLength.simps) simp
    have b: "bitLength n = Suc (bitLength (n div 2))" using 1 by (subst bitLength.simps) simp
    have "2 ^ (bitLength n - 1) = 2 * 2 ^ (bitLength (n div 2) - 1)"
      unfolding b using pos by (cases "bitLength (n div 2)") simp_all
    also have "\<dots> \<le> 2 * (n div 2)" using ih(1) by simp
    also have "\<dots> \<le> n" by simp
    finally have lo: "2 ^ (bitLength n - 1) \<le> n" .
    have "n < 2 * (n div 2) + 2" by presburger
    also have "\<dots> \<le> 2 * 2 ^ bitLength (n div 2)" using ih(2) by simp
    finally have "n < 2 ^ bitLength n" unfolding b by simp
    with lo show ?thesis by simp
  qed
qed

lemma bitLength_pos: "0 < n \<Longrightarrow> 0 < bitLength n"
  by (subst bitLength.simps) simp

lemma exponentOf_bounds:
  assumes "x \<noteq> 0"
  shows "pow2 (exponentOf x) \<le> \<bar>x\<bar> \<and> \<bar>x\<bar> < pow2 (exponentOf x + 1)"
proof (cases "\<bar>x\<bar> \<ge> 1")
  case True
  define n where "n = nat \<lfloor>\<bar>x\<bar>\<rfloor>"
  have n: "0 < n" using True by (simp add: n_def)
  have e: "exponentOf x = int (bitLength n) - 1" using True by (simp add: exponentOf_def n_def)
  note b = bitLength_bounds[OF n, THEN conjunct1] bitLength_bounds[OF n, THEN conjunct2] bitLength_pos[OF n]
  have lo: "real n \<le> \<bar>x\<bar>" unfolding n_def using True by simp
  have hi: "\<bar>x\<bar> < real n + 1" unfolding n_def using True by linarith
  have e1: "pow2 (exponentOf x) = real (2 ^ (bitLength n - 1))"
    unfolding e using b(3) by (simp add: pow2_def nat_diff_distrib')
  have e2: "pow2 (exponentOf x + 1) = real (2 ^ bitLength n)"
    unfolding e by (simp add: pow2_def)
  have "real (2 ^ (bitLength n - 1)) \<le> real n" using b(1) by (meson of_nat_le_iff)
  moreover have "real n + 1 \<le> real (2 ^ bitLength n)" using b(2)
    by (metis Suc_leI of_nat_Suc of_nat_le_iff add.commute)
  ultimately show ?thesis unfolding e1 e2 using lo hi by linarith
next
  case False
  define y where "y = 1 / \<bar>x\<bar>"
  have y: "1 < y" using False assms by (simp add: y_def)
  define k where "k = nat (\<lceil>y\<rceil> - 1)"
  have c: "2 \<le> \<lceil>y\<rceil>" using y by linarith
  have k: "0 < k" using c by (simp add: k_def)
  have e: "exponentOf x = - int (bitLength k)" using False by (simp add: exponentOf_def k_def y_def)
  note b = bitLength_bounds[OF k, THEN conjunct1] bitLength_bounds[OF k, THEN conjunct2] bitLength_pos[OF k]
  have kc: "real k = of_int \<lceil>y\<rceil> - 1" using c by (simp add: k_def)
  have lo: "real k < y" unfolding kc by linarith
  have hi: "y \<le> real k + 1" unfolding kc by simp
  have e1: "pow2 (exponentOf x) = 1 / real (2 ^ bitLength k)"
    unfolding e using b(3) by (simp add: pow2_def)
  have e2: "pow2 (exponentOf x + 1) = 1 / real (2 ^ (bitLength k - 1))"
  proof (cases "bitLength k = 1")
    case True
    then show ?thesis unfolding e by (simp add: pow2_def)
  next
    case False
    with b(3) have "- int (bitLength k) + 1 < 0" by simp
    moreover have "nat (int (bitLength k) - 1) = bitLength k - 1" by simp
    ultimately show ?thesis unfolding e by (simp add: pow2_def)
  qed
  have "real (2 ^ (bitLength k - 1)) \<le> real k" using b(1) by (meson of_nat_le_iff)
  then have up: "real (2 ^ (bitLength k - 1)) < y" using lo by linarith
  have "real k + 1 \<le> real (2 ^ bitLength k)" using b(2)
    by (metis Suc_leI of_nat_Suc of_nat_le_iff add.commute)
  then have dn: "y \<le> real (2 ^ bitLength k)" using hi by linarith
  have xy: "\<bar>x\<bar> = 1 / y" using assms by (simp add: y_def)
  have ypos: "0 < y" using y by simp
  have p1: "0 < real (2 ^ bitLength k)" by simp
  have p2: "0 < real (2 ^ (bitLength k - 1))" by simp
  have "1 / real (2 ^ bitLength k) \<le> 1 / y"
    using dn ypos by (simp add: frac_le)
  moreover have "1 / y < 1 / real (2 ^ (bitLength k - 1))"
    using up p2 by (simp add: frac_less2)
  ultimately show ?thesis unfolding e1 e2 xy by simp
qed

lemma exponentOf_unique:
  assumes "pow2 e \<le> \<bar>x\<bar>" and "\<bar>x\<bar> < pow2 (e + 1)"
  shows "exponentOf x = e"
proof -
  have "0 < \<bar>x\<bar>" using assms(1) pow2_pos[of e] by linarith
  then have "x \<noteq> 0" by simp
  from exponentOf_bounds[OF this]
  have b: "pow2 (exponentOf x) \<le> \<bar>x\<bar>" "\<bar>x\<bar> < pow2 (exponentOf x + 1)" by simp_all
  have "pow2 e < pow2 (exponentOf x + 1)" using assms(1) b(2) by linarith
  moreover have "pow2 (exponentOf x) < pow2 (e + 1)" using assms(2) b(1) by linarith
  ultimately show ?thesis by simp
qed

lemma abs_pow2 [simp]: "\<bar>pow2 q\<bar> = pow2 q"
  using pow2_pos[of q] by linarith

lemma pow2_nonzero [simp]: "pow2 q \<noteq> 0"
  using pow2_pos[of q] by linarith

lemma pow2_numeral: "pow2 (numeral k) = 2 ^ numeral k"
  by (simp add: pow2_def)

lemma pow2_1: "pow2 1 = 2"
  by (simp add: pow2_def)

lemma pow2_0: "pow2 0 = 1"
  by (simp add: pow2_def)

lemma pow2_plus: "pow2 (numeral k + q) = 2 ^ numeral k * pow2 q"
  by (simp only: pow2_add pow2_numeral)

lemma pow2_succ: "pow2 (q + 1) = 2 * pow2 q"
  by (simp only: pow2_add pow2_1 mult.commute)

lemma roundEven_int [simp]: "roundEven (of_int j) = j"
  by (simp add: roundEven_def)

lemma round64_exact:
  assumes x: "x = of_int m * pow2 q" and m: "\<bar>m\<bar> < 2 ^ 53" and q: "- 1074 \<le> q" "q \<le> 971"
    and nz: "x \<noteq> 0"
  shows "round64 x = Finite x"
proof -
  define e where "e = exponentOf x"
  define q' where "q' = max e (- 1022) - 52"
  from exponentOf_bounds[OF nz] have lo: "pow2 e \<le> \<bar>x\<bar>" by (simp add: e_def)
  have "\<bar>x\<bar> = real_of_int \<bar>m\<bar> * pow2 q" unfolding x by (simp add: abs_mult)
  also have "\<dots> < 2 ^ 53 * pow2 q"
  proof -
    have "real_of_int \<bar>m\<bar> < real_of_int (2 ^ 53)" using m by (simp only: of_int_less_iff)
    then show ?thesis by simp
  qed
  also have "\<dots> = pow2 (53 + q)" by (simp only: pow2_plus)
  finally have hi: "\<bar>x\<bar> < pow2 (53 + q)" .
  with lo have "pow2 e < pow2 (53 + q)" by linarith
  then have "e < 53 + q" by simp
  then have le: "q' \<le> q" unfolding q'_def using q(1) by simp
  have "pow2 q = pow2 q' * pow2 (q - q')" by (simp add: pow2_add[symmetric])
  also have "pow2 (q - q') = of_int (2 ^ nat (q - q'))" using le by (simp add: pow2_nat)
  finally have pq: "pow2 q = pow2 q' * of_int (2 ^ nat (q - q'))" .
  define m' where "m' = m * 2 ^ nat (q - q')"
  have scaled: "x / pow2 q' = of_int m'"
    unfolding x pq m'_def by simp
  have again: "of_int m' * pow2 q' = x"
    unfolding x pq m'_def by simp
  have "pow2 (53 + q) \<le> pow2 1024" using q(2) by simp
  with hi have small: "\<not> \<bar>x\<bar> \<ge> pow2 1024" by linarith
  have m'0: "m' \<noteq> 0" using again nz by auto
  show ?thesis
    unfolding round64_def Let_def e_def[symmetric] q'_def[symmetric] scaled roundEven_int again
    using nz small m'0 by simp
qed

lemma round64_fixed:
  assumes r: "round64 x = Finite x" and nz: "x \<noteq> 0"
  shows "\<exists>m q. x = of_int m * pow2 q \<and> \<bar>m\<bar> < 2 ^ 53 \<and> - 1074 \<le> q \<and> q \<le> 971"
proof -
  define e where "e = exponentOf x"
  define q where "q = max e (- 1022) - 52"
  define m where "m = roundEven (x / pow2 q)"
  from exponentOf_bounds[OF nz]
  have lo: "pow2 e \<le> \<bar>x\<bar>" and hi: "\<bar>x\<bar> < pow2 (e + 1)" by (simp_all add: e_def)
  from r nz have small: "\<not> \<bar>of_int m * pow2 q\<bar> \<ge> pow2 1024"
    and x: "x = of_int m * pow2 q"
    unfolding round64_def Let_def e_def[symmetric] q_def[symmetric] m_def[symmetric]
    by (auto split: if_splits)
  have "pow2 e < pow2 1024" using lo small x by linarith
  then have e: "e < 1024" by simp
  then have q2: "q \<le> 971" unfolding q_def by simp
  have q1: "- 1074 \<le> q" unfolding q_def by simp
  have "real_of_int \<bar>m\<bar> * pow2 q = \<bar>x\<bar>" unfolding x by (simp add: abs_mult)
  also have "\<dots> < pow2 (e + 1)" by (rule hi)
  also have "\<dots> \<le> pow2 (53 + q)" unfolding q_def by simp
  also have "\<dots> = 2 ^ 53 * pow2 q" by (simp only: pow2_plus)
  finally have "real_of_int \<bar>m\<bar> < 2 ^ 53" by simp
  then have "real_of_int \<bar>m\<bar> < real_of_int (2 ^ 53)" by simp
  then have "\<bar>m\<bar> < 2 ^ 53" by (simp only: of_int_less_iff)
  with x q1 q2 show ?thesis by blast
qed

lemma round64_double:
  assumes r: "round64 v = Finite v" and nz: "v \<noteq> 0" and b: "\<bar>v\<bar> < pow2 1023"
  shows "round64 (2 * v) = Finite (2 * v)"
proof -
  from round64_fixed[OF r nz] obtain m q
    where v: "v = of_int m * pow2 q" and m: "\<bar>m\<bar> < 2 ^ 53" and q: "- 1074 \<le> q" "q \<le> 971"
    by blast
  have m0: "m \<noteq> 0" using nz v by auto
  show ?thesis
  proof (cases "q < 971")
    case True
    have "2 * v = of_int m * pow2 (q + 1)" unfolding v pow2_succ by simp
    then show ?thesis using m q True m0 by (intro round64_exact[where m = m and q = "q + 1"]) simp_all
  next
    case False
    with q have q971: "q = 971" by simp
    have "real_of_int \<bar>m\<bar> * pow2 971 = \<bar>v\<bar>" unfolding v q971 by (simp add: abs_mult)
    also have "\<dots> < pow2 1023" by (rule b)
    also have "\<dots> = 2 ^ 52 * pow2 971" by (simp add: pow2_numeral)
    finally have "real_of_int \<bar>m\<bar> < 2 ^ 52" by simp
    then have "real_of_int \<bar>m\<bar> < real_of_int (2 ^ 52)" by simp
    then have "\<bar>m\<bar> < 2 ^ 52" by (simp only: of_int_less_iff)
    then have m2: "\<bar>2 * m\<bar> < 2 ^ 53" by simp
    have "2 * v = of_int (2 * m) * pow2 971" unfolding v q971 by simp
    then show ?thesis using m2 m0 by (intro round64_exact[where m = "2 * m" and q = 971]) simp_all
  qed
qed

lemma float64_of_int_exact:
  assumes "\<bar>n\<bar> \<le> 2 ^ 53"
  shows "float64_of_int n = Finite (of_int n)"
proof (cases "n = 0")
  case True
  then show ?thesis by (simp add: float64_of_int_def round64_def)
next
  case False
  show ?thesis
  proof (cases "\<bar>n\<bar> = 2 ^ 53")
    case True
    then have n: "n = 2 ^ 53 \<or> n = - (2 ^ 53)" by linarith
    then have "n = (n div 2) * 2" by auto
    then have "real_of_int n = real_of_int ((n div 2) * 2)" by simp
    then have "real_of_int n = of_int (n div 2) * pow2 1"
      unfolding pow2_1 by (simp only: of_int_mult of_int_numeral)
    moreover have "\<bar>n div 2\<bar> < 2 ^ 53" "n div 2 \<noteq> 0" using n by auto
    ultimately show ?thesis unfolding float64_of_int_def using False
      by (intro round64_exact[where m = "n div 2" and q = 1]) simp_all
  next
    case ne: False
    with assms have "\<bar>n\<bar> < 2 ^ 53" by simp
    moreover have "real_of_int n = of_int n * pow2 0" by (simp add: pow2_0)
    ultimately show ?thesis unfolding float64_of_int_def using False
      by (intro round64_exact[where m = n and q = 0]) simp_all
  qed
qed

section \<open>Properties of the HealthScorer\<close>

lemma wrap64_id:
  "- 9223372036854775808 \<le> x \<Longrightarrow> x < 9223372036854775808 \<Longrightarrow> wrap64 x = x"
  unfolding wrap64_def by simp

lemma needsAttention_score [simp]: "HealthScore (needsAttention st n t) = HealthScore st"
  and needsAttention_label [simp]: "HealthLabel (needsAttention st n t) = HealthLabel st"
  by (simp_all add: needsAttention_def Let_def)

lemma clampScore_range: "0 \<le> clampScore s \<and> clampScore s \<le> 100"
  by (simp add: clampScore_def)

lemma status_score:
  "HealthScore (CurrentStatus (calculateCurrentStatus profile analysis)) =
     clampScore (healthScoreSum
       ((CurrentStatus profile)
           \<lparr> sSentiment := Sentiment (Intent analysis),
             sSatisfactionScore := SatisfactionScore (Intent analysis),
             ChurnRisk := IsLikelyToChurn (Churn analysis),
             ChurnProbability := RenewalProbability (Churn analysis),
             OpenIssueCount := int (length (ActiveIssues profile)),
             UpsellPotential :=
               (if HasOpportunity (Upsell analysis)
                then WillingnessToInvest (Upsell analysis) else ''low'') \<rparr>)
       (int (length (filter IsRecurring (ActiveIssues profile))))
       (OverallTrend (Trends profile)))"
  by (simp add: calculateCurrentStatus_def Let_def)

lemma status_label:
  "HealthLabel (CurrentStatus (calculateCurrentStatus profile analysis)) =
     healthLabel (HealthScore (CurrentStatus (calculateCurrentStatus profile analysis)))"
  by (simp add: calculateCurrentStatus_def Let_def)

lemma billing_score:
  "HealthScore (CurrentStatus (calculateCurrentStatus billingProfile billingCall)) = 0"
  unfolding status_score
  by (simp add: billingProfile_def billingCall_def exampleAnalysis_def exampleTracked_def
      newProfile_def zeroStatus_def healthScoreSum_def clampScore_def wrap64_id Let_def)

text \<open>
  C3. Whatever the profile and the analysis, the health score that
  \<open>calculateCurrentStatus\<close> stores lies between 0 and 100, and the label is
  \<open>Healthy\<close> exactly for a score of at least 70, \<open>At Risk\<close> exactly for a score from
  40 to 69, and \<open>Critical\<close> exactly for a score below 40. The score arithmetic is that
  of 64-bit integers, so this covers every input, not only the valid ones.
\<close>

theorem health_score_range_and_label:
  "let st = CurrentStatus (calculateCurrentStatus profile analysis) in
     0 \<le> HealthScore st \<and> HealthScore st \<le> 100 \<and>
     (HealthLabel st = ''Healthy'' \<longleftrightarrow> HealthScore st \<ge> 70) \<and>
     (HealthLabel st = ''At Risk'' \<longleftrightarrow> 40 \<le> HealthScore st \<and> HealthScore st < 70) \<and>
     (HealthLabel st = ''Critical'' \<longleftrightarrow> HealthScore st < 40)"
proof -
  let ?st = "CurrentStatus (calculateCurrentStatus profile analysis)"
  have r: "0 \<le> HealthScore ?st \<and> HealthScore ?st \<le> 100"
    unfolding status_score by (rule clampScore_range)
  have l: "HealthLabel ?st = healthLabel (HealthScore ?st)" by (rule status_label)
  show ?thesis unfolding Let_def l using r by (simp add: healthLabel_def)
qed

text \<open>
  In the scenario of the specification the sum is \<open>50 - 20 - 12 - 25 - 5 = -12\<close>, the
  score 0 and the label \<open>Critical\<close>.
\<close>

theorem health_score_witness:
  "HealthScore (CurrentStatus (calculateCurrentStatus billingProfile billingCall)) = 0 \<and>
   HealthLabel (CurrentStatus (calculateCurrentStatus billingProfile billingCall)) = ''Critical''"
  using health_score_range_and_label[of billingProfile billingCall] billing_score
  by (simp add: Let_def)

lemma needsAttention_result:
  "(NeedsAttention (needsAttention st n t), AttentionReason (needsAttention st n t)) =
     (if HealthScore st < 40 then (True, ''Critical health score'')
      else if ChurnRisk st = ''high'' then (True, ''High churn risk'')
      else if n > 0 then (True, show_int n @ '' recurring unresolved issues'')
      else if t = ''declining'' then (True, ''Declining trend detected'')
      else (False, ''''))"
  by (simp add: needsAttention_def Let_def)

lemma status_attention:
  "\<exists>st. CurrentStatus (calculateCurrentStatus profile analysis) =
          needsAttention st (int (length (filter IsRecurring (ActiveIssues profile))))
            (OverallTrend (Trends profile)) \<and>
        ChurnRisk st = IsLikelyToChurn (Churn analysis)"
  apply (simp add: calculateCurrentStatus_def Let_def split del: if_split)
  apply (rule exI, rule conjI, rule refl)
  apply simp
  done

text \<open>
  C4. The attention flag and its single reason are fixed by the first rule that applies,
  in this order: a score below 40, a high churn risk, at least one recurring active
  issue, a declining overall trend; when none applies the flag is off and the reason is
  empty. So an account with a score below 40 and a high churn risk carries the reason
  \<open>Critical health score\<close> only.
\<close>

theorem attention_priority:
  "let st = CurrentStatus (calculateCurrentStatus profile analysis);
       n = int (length (filter IsRecurring (ActiveIssues profile)))
   in (NeedsAttention st, AttentionReason st) =
     (if HealthScore st < 40 then (True, ''Critical health score'')
      else if IsLikelyToChurn (Churn analysis) = ''high'' then (True, ''High churn risk'')
      else if n > 0 then (True, show_int n @ '' recurring unresolved issues'')
      else if OverallTrend (Trends profile) = ''declining'' then (True, ''Declining trend detected'')
      else (False, ''''))"
proof -
  obtain st where st: "CurrentStatus (calculateCurrentStatus profile analysis) =
          needsAttention st (int (length (filter IsRecurring (ActiveIssues profile))))
            (OverallTrend (Trends profile))"
    and churn: "ChurnRisk st = IsLikelyToChurn (Churn analysis)"
    using status_attention by blast
  show ?thesis
    unfolding Let_def st needsAttention_result needsAttention_score churn ..
qed

theorem attention_priority_witness:
  "IsLikelyToChurn (Churn billingCall) = ''high'' \<and>
   HealthScore (CurrentStatus (calculateCurrentStatus billingProfile billingCall)) < 40 \<and>
   NeedsAttention (CurrentStatus (calculateCurrentStatus billingProfile billingCall)) \<and>
   AttentionReason (CurrentStatus (calculateCurrentStatus billingProfile billingCall)) =
     ''Critical health score''"
  using attention_priority[of billingProfile billingCall] billing_score
  by (simp add: Let_def billingCall_def exampleAnalysis_def)

section \<open>Properties of the TrendCalculator\<close>

lemma list_shape:
  "length (xs :: 'a list) < 2 \<or> (\<exists>a b. xs = [a, b]) \<or> (\<exists>ys a b c. xs = ys @ [a, b, c])"
proof (induction xs rule: rev_induct)
  case Nil
  then show ?case by simp
next
  case (snoc c xs)
  show ?case
  proof (cases xs rule: rev_cases)
    case Nil
    then show ?thesis by simp
  next
    case (snoc ys b)
    note xs = this
    show ?thesis
    proof (cases ys rule: rev_cases)
      case Nil
      with xs show ?thesis by simp
    next
      case (snoc zs a)
      with xs show ?thesis by simp
    qed
  qed
qed

lemmas float64_eval =
  round64_def exponentOf_def roundEven_def pow2_def bitLength.simps fsub_def fdiv_def
  isInf_def isZero_def float64_of_int_def Let_def

lemma float64_of_int_1 [simp]: "float64_of_int 1 = Finite 1"
  using float64_of_int_exact[of 1] by simp

lemma float64_of_int_2 [simp]: "float64_of_int 2 = Finite 2"
  using float64_of_int_exact[of 2] by simp

lemma tenth: "round64 0.1 = Finite (3602879701896397 / 36028797018963968)"
  by (simp add: float64_eval)

lemma minus_tenth: "round64 (- 0.1) = Finite (- (3602879701896397 / 36028797018963968))"
  by (simp add: float64_eval)

lemma policy2:
  "trendPolicy [x, y] =
     (let d = fsub (fdiv (fadd (Finite 0) y) (Finite 1)) (fdiv (fadd (Finite 0) x) (Finite 1))
      in if fless (round64 0.1) d then ''improving''
         else if fless d (round64 (- 0.1)) then ''declining'' else ''stable'')"
  by (simp add: trendPolicy_def Let_def average_def)

lemma policy3:
  "trendPolicy (vs @ [x, y, z]) =
     (let d = fsub (fdiv (fadd (fadd (Finite 0) y) z) (Finite 2))
                (fdiv (fadd (Finite 0) x) (Finite 1))
      in if fless (round64 0.1) d then ''improving''
         else if fless d (round64 (- 0.1)) then ''declining'' else ''stable'')"
  by (simp add: trendPolicy_def Let_def average_def)

lemma trend2: "calculateTrendDirection [a, b] = trendPolicy [Value a, Value b]"
  unfolding policy2 by (simp add: calculateTrendDirection_def Let_def)

lemma trend3:
  "calculateTrendDirection (ys @ [a, b, c]) = trendPolicy (map Value ys @ [Value a, Value b, Value c])"
proof -
  have start: "nat (if int (length (ys @ [a, b, c])) - 3 < 0 then 0
                    else int (length (ys @ [a, b, c])) - 3) = length ys"
    by simp
  show ?thesis
    unfolding policy3 calculateTrendDirection_def Let_def start
    by simp
qed

lemma calculateTrendDirection_policy:
  "calculateTrendDirection points = trendPolicy (map Value points)"
proof -
  consider "length points < 2" | a b where "points = [a, b]"
    | ys a b c where "points = ys @ [a, b, c]"
    using list_shape[of points] by blast
  then show ?thesis
  proof cases
    case 1
    then show ?thesis by (simp add: calculateTrendDirection_def trendPolicy_def)
  next
    case 2
    then show ?thesis by (simp only: trend2 list.map)
  next
    case 3
    then show ?thesis by (simp only: trend3 list.map map_append)
  qed
qed

lemma trend_short: "length points < 2 \<Longrightarrow> calculateTrendDirection points = ''stable''"
  by (simp add: calculateTrendDirection_def)

text \<open>
  The two halves of a constant sequence have the same average, unless the sum of two
  values overflows.
\<close>

lemma first_half_constant:
  assumes "round64 (valueOf c) = Finite (valueOf c)"
  shows "fdiv (fadd (Finite 0) c) (Finite 1) = (if c = NegZero then Finite 0 else c)"
  using assms by (cases c) (auto simp add: fdiv_def isInf_def isZero_def)

lemma second_half_constant:
  assumes r: "round64 (valueOf c) = Finite (valueOf c)" and b: "\<bar>valueOf c\<bar> < 2 ^ 1023"
  shows "fdiv (fadd (fadd (Finite 0) c) c) (Finite 2) = (if c = NegZero then Finite 0 else c)"
proof (cases c)
  case (Finite v)
  show ?thesis
  proof (cases "v = 0")
    case True
    with Finite show ?thesis by (simp add: fdiv_def isInf_def isZero_def)
  next
    case False
    from r Finite have rv: "round64 v = Finite v" by simp
    from b Finite have "\<bar>v\<bar> < pow2 1023" by (simp add: pow2_numeral)
    from round64_double[OF rv False this] have d: "round64 (v + v) = Finite (2 * v)" by simp
    have "fadd (fadd (Finite 0) c) c = Finite (2 * v)"
      unfolding Finite using False rv d by simp
    then show ?thesis
      unfolding Finite using False rv by (simp add: fdiv_def isInf_def isZero_def)
  qed
qed (simp_all add: fdiv_def isInf_def isZero_def)

lemma fsub_self: "fsub c c = Finite 0 \<or> fsub c c = NaN"
  by (cases c) (auto simp add: fsub_def)

lemma no_difference:
  assumes "d = Finite 0 \<or> d = NaN"
  shows "(if fless (round64 0.1) d then ''improving''
          else if fless d (round64 (- 0.1)) then ''declining'' else ''stable'') = ''stable''"
  using assms by (auto simp add: tenth minus_tenth)

lemma trend_constant:
  assumes c: "\<forall>p \<in> set points. Value p = c"
    and r: "round64 (valueOf c) = Finite (valueOf c)" and b: "\<bar>valueOf c\<bar> < 2 ^ 1023"
  shows "calculateTrendDirection points = ''stable''"
proof -
  note halves = first_half_constant[OF r] second_half_constant[OF r b]
  consider "length points < 2" | p1 p2 where "points = [p1, p2]"
    | ys p1 p2 p3 where "points = ys @ [p1, p2, p3]"
    using list_shape[of points] by blast
  then show ?thesis
  proof cases
    case 1
    then show ?thesis by (rule trend_short)
  next
    case 2
    with c have v: "Value p1 = c" "Value p2 = c" by simp_all
    show ?thesis
      unfolding 2 trend2 policy2 v halves Let_def by (rule no_difference) (rule fsub_self)
  next
    case 3
    with c have v: "Value p1 = c" "Value p2 = c" "Value p3 = c" by simp_all
    show ?thesis
      unfolding 3 trend3 policy3 v halves Let_def by (rule no_difference) (rule fsub_self)
  qed
qed

lemma trend_values:
  "calculateTrendDirection points \<in> {''improving'', ''declining'', ''stable''}"
  unfolding calculateTrendDirection_def Let_def
  by (simp split: prod.splits)

lemma exactPolicy3:
  "exactPolicy [x, y, z] =
     (if (y + z) / 2 - x > 0.1 then ''improving''
      else if (y + z) / 2 - x < - 0.1 then ''declining'' else ''stable'')"
  by (simp add: exactPolicy_def Let_def exactAverage_def)

lemma round64_top: "round64 (2 ^ 1023) = Finite (2 ^ 1023)"
proof -
  have "(2::real) ^ 1023 = of_int (2 ^ 52) * pow2 971"
    by (simp only: pow2_numeral of_int_power of_int_numeral power_add[symmetric]) simp
  then show ?thesis by (rule round64_exact) simp_all
qed

lemma round64_overflow: "round64 (2 ^ 1024) = PosInf"
proof -
  define m :: int where "m = 2 ^ 52"
  have p: "(2::real) ^ 1024 = pow2 1024" by (simp only: pow2_numeral)
  have e: "exponentOf (pow2 1024) = 1024"
    by (rule exponentOf_unique) simp_all
  have s: "pow2 1024 / pow2 972 = of_int m"
    unfolding pow2_diff[symmetric] m_def by (simp add: pow2_numeral)
  have t: "real_of_int m * pow2 972 = pow2 1024"
    unfolding s[symmetric] by simp
  show ?thesis
    unfolding p round64_def Let_def e
    by (simp add: s t)
qed

lemma hugePoints_trend: "calculateTrendDirection hugePoints = ''improving''"
proof -
  define v :: real where "v = 2 ^ 1023"
  have nz: "v \<noteq> 0" "v + v \<noteq> 0" "2 * v \<noteq> 0" by (simp_all add: v_def)
  have top: "round64 v = Finite v" unfolding v_def by (rule round64_top)
  have "v + v = 2 ^ 1024" unfolding v_def by simp
  then have over: "round64 (v + v) = PosInf" "round64 (2 * v) = PosInf"
    by (simp_all only: round64_overflow mult_2)
  have "map Value hugePoints = [] @ [Finite v, Finite v, Finite v]"
    by (simp add: hugePoints_def examplePoint_def v_def)
  then have "calculateTrendDirection hugePoints =
      trendPolicy ([] @ [Finite v, Finite v, Finite v])"
    unfolding calculateTrendDirection_policy by (rule arg_cong)
  also have "\<dots> = ''improving''"
    unfolding policy3 Let_def using nz top over
    by (simp add: fdiv_def fsub_def isInf_def isZero_def tenth)
  finally show ?thesis .
qed

lemma nearPoints_trend: "calculateTrendDirection nearPoints = ''improving''"
proof -
  have "calculateTrendDirection nearPoints =
      trendPolicy ([] @ [Finite 1, Finite 1, Finite (5404319552844595 / 4503599627370496)])"
    unfolding calculateTrendDirection_policy by (simp add: nearPoints_def examplePoint_def)
  also have "\<dots> = ''improving''"
    unfolding policy3 by (simp add: float64_eval)
  finally show ?thesis .
qed

text \<open>
  C5, as stated, fails on two counts.
  Three observations of the value \<open>2 ^ 1023\<close>, which is a \<^verbatim>\<open>float64\<close>, are a constant
  sequence, and its trend is \<open>improving\<close>: the sum of the second half overflows. And for
  the observations 1, 1 and the \<^verbatim>\<open>float64\<close> nearest to 1.2 the averages of the two
  halves differ by less than 0.1, so the policy in exact arithmetic says \<open>stable\<close>, where
  the function says \<open>improving\<close>: the sum of 1 and that number is rounded upwards.
\<close>

theorem trend_direction_not_exact:
  "map Value hugePoints = [Finite (2 ^ 1023), Finite (2 ^ 1023), Finite (2 ^ 1023)] \<and>
   round64 (2 ^ 1023) = Finite (2 ^ 1023) \<and>
   calculateTrendDirection hugePoints = ''improving'' \<and>
   map Value nearPoints = [round64 1, round64 1, round64 1.2] \<and>
   exactPolicy (map (\<lambda>p. valueOf (Value p)) nearPoints) = ''stable'' \<and>
   calculateTrendDirection nearPoints = ''improving''"
proof -
  have "map Value hugePoints = [Finite (2 ^ 1023), Finite (2 ^ 1023), Finite (2 ^ 1023)]"
    by (simp add: hugePoints_def examplePoint_def)
  moreover have "map Value nearPoints = [round64 1, round64 1, round64 1.2]"
    by (simp add: nearPoints_def examplePoint_def float64_eval)
  moreover have "exactPolicy (map (\<lambda>p. valueOf (Value p)) nearPoints) = ''stable''"
    by (simp add: nearPoints_def examplePoint_def exactPolicy3)
  ultimately show ?thesis
    using round64_top hugePoints_trend nearPoints_trend by simp
qed

text \<open>
  C5, as amended. \<open>calculateTrendDirection\<close> is the policy of the
  specification applied to the values of the points, with every sum, quotient and
  difference rounded to \<^verbatim>\<open>float64\<close>: a sequence of fewer than two points is \<open>stable\<close>;
  otherwise the last three points (or both, if there are two) are cut into a first half
  of \<open>max 1 \<lfloor>n/2\<rfloor>\<close> points and the rest, each half is added up from left to right and
  divided by its length, and the difference of the two averages decides: above the
  \<^verbatim>\<open>float64\<close> nearest to 0.1 \<open>improving\<close>, below the one nearest to -0.1 \<open>declining\<close>,
  otherwise \<open>stable\<close>. A constant sequence is \<open>stable\<close> if the magnitude of its value
  is less than \<open>2 ^ 1023\<close> (the hypothesis \<open>round64 (valueOf c) = Finite (valueOf c)\<close>
  says that the value is a \<^verbatim>\<open>float64\<close>). Being a function of its argument, the result
  depends on the sequence only.
\<close>

theorem trend_direction_policy:
  "calculateTrendDirection points = trendPolicy (map Value points) \<and>
   (length points < 2 \<longrightarrow> calculateTrendDirection points = ''stable'') \<and>
   ((\<forall>p \<in> set points. Value p = c) \<and> round64 (valueOf c) = Finite (valueOf c) \<and>
      \<bar>valueOf c\<bar> < 2 ^ 1023 \<longrightarrow>
    calculateTrendDirection points = ''stable'')"
  using calculateTrendDirection_policy trend_short trend_constant by blast

theorem trend_direction_witness:
  "length [examplePoint 1] < 2 \<and>
   map Value (map examplePoint [2, 2, 2]) = [Finite 2, Finite 2, Finite 2] \<and>
   round64 (valueOf (Finite 2)) = Finite (valueOf (Finite 2)) \<and>
   \<bar>valueOf (Finite 2)\<bar> < 2 ^ 1023 \<and>
   calculateTrendDirection [examplePoint 1] = ''stable'' \<and>
   calculateTrendDirection (map examplePoint [2, 2, 2]) = ''stable'' \<and>
   calculateTrendDirection (map examplePoint [3, 0, 0.5, 1]) = ''improving''"
proof -
  have h1: "length [examplePoint 1] < 2" by simp
  have h2: "\<forall>p \<in> set (map examplePoint [2, 2, 2]). Value p = Finite 2"
    by (simp add: examplePoint_def)
  have h3: "round64 (valueOf (Finite 2)) = Finite (valueOf (Finite 2))"
    by (simp add: float64_eval)
  have h4: "\<bar>valueOf (Finite 2)\<bar> < 2 ^ 1023" by simp
  have v: "map Value (map examplePoint [3, 0, 0.5, 1]) =
      [Finite 3] @ [Finite 0, Finite 0.5, Finite 1]"
    by (simp add: examplePoint_def)
  have p: "trendPolicy ([Finite 3] @ [Finite 0, Finite 0.5, Finite 1]) = ''improving''"
    unfolding policy3 by (simp add: float64_eval)
  from trend_direction_policy[of "[examplePoint 1]" "Finite 1"] h1
  have r1: "calculateTrendDirection [examplePoint 1] = ''stable''" by blast
  from trend_direction_policy[of "map examplePoint [2, 2, 2]" "Finite 2"] h2 h3 h4
  have r2: "calculateTrendDirection (map examplePoint [2, 2, 2]) = ''stable''" by blast
  from trend_direction_policy[of "map examplePoint [3, 0, 0.5, 1]" "Finite 0"]
  have r3: "calculateTrendDirection (map examplePoint [3, 0, 0.5, 1]) = ''improving''"
    unfolding v p by blast
  have h2': "map Value (map examplePoint [2, 2, 2]) = [Finite 2, Finite 2, Finite 2]"
    by (simp add: examplePoint_def)
  from h1 h2' h3 h4 r1 r2 r3 show ?thesis by blast
qed

lemma updateTrends_IssueHistory:
  "IssueHistory (Trends (updateTrends fmt profile analysis)) =
     IssueHistory (Trends profile) @
        [\<lparr> Date = fmt (Timestamp analysis), Value = float64_of_int (int (length (Issues analysis))),
           Label = '''', pCallID = CallID analysis \<rparr>]"
  by (simp add: updateTrends_def Let_def split del: if_split cong: if_cong)

lemma updateTrends_SentimentTrend:
  "SentimentTrend (Trends (updateTrends fmt profile analysis)) =
     calculateTrendDirection (SentimentHistory (Trends (updateTrends fmt profile analysis)))"
  by (simp add: updateTrends_def Let_def split del: if_split cong: if_cong)

lemma updateTrends_OverallTrend:
  "OverallTrend (Trends (updateTrends fmt profile analysis)) =
     (let issueTrend =
            calculateTrendDirection (IssueHistory (Trends (updateTrends fmt profile analysis)))
      in if issueTrend = ''declining'' then ''improving''
         else if issueTrend = ''improving'' then ''declining''
         else SentimentTrend (Trends (updateTrends fmt profile analysis)))"
  by (simp add: updateTrends_def Let_def split del: if_split cong: if_cong)

text \<open>
  C6. After \<open>updateTrends\<close> the overall trend is the trend of the issue-count series
  (to which the number of issues of this call has been appended) with its polarity
  inverted: \<open>declining\<close> gives \<open>improving\<close>, \<open>improving\<close> gives \<open>declining\<close>; the only
  other value of the issue trend is \<open>stable\<close>, and then the overall trend is the
  sentiment trend.
\<close>

theorem overall_trend_rule:
  "let trends = Trends (updateTrends fmt profile analysis);
       issueTrend = calculateTrendDirection (IssueHistory trends)
   in IssueHistory trends = IssueHistory (Trends profile) @
        [\<lparr> Date = fmt (Timestamp analysis), Value = float64_of_int (int (length (Issues analysis))),
           Label = '''', pCallID = CallID analysis \<rparr>] \<and>
      SentimentTrend trends = calculateTrendDirection (SentimentHistory trends) \<and>
      issueTrend \<in> {''improving'', ''declining'', ''stable''} \<and>
      OverallTrend trends =
        (if issueTrend = ''declining'' then ''improving''
         else if issueTrend = ''improving'' then ''declining''
         else SentimentTrend trends)"
  unfolding Let_def
  using updateTrends_IssueHistory[of fmt profile analysis]
    updateTrends_SentimentTrend[of fmt profile analysis]
    updateTrends_OverallTrend[of fmt profile analysis, unfolded Let_def]
    trend_values[of "IssueHistory (Trends (updateTrends fmt profile analysis))"]
  by blast

theorem overall_trend_witness:
  "calculateTrendDirection
     (IssueHistory (Trends (updateTrends (\<lambda>t. ''2025-12-13'') busyProfile quietCall))) = ''declining'' \<and>
   OverallTrend (Trends (updateTrends (\<lambda>t. ''2025-12-13'') busyProfile quietCall)) = ''improving''"
proof -
  let ?trends = "Trends (updateTrends (\<lambda>t. ''2025-12-13'') busyProfile quietCall)"
  note rule = overall_trend_rule[of "\<lambda>t. ''2025-12-13''" busyProfile quietCall, unfolded Let_def]
  have h: "IssueHistory ?trends = [examplePoint 3,
      \<lparr> Date = ''2025-12-13'', Value = float64_of_int 0, Label = '''', pCallID = ''c2'' \<rparr>]"
    using rule by (simp add: busyProfile_def newProfile_def quietCall_def exampleAnalysis_def)
  have d: "calculateTrendDirection (IssueHistory ?trends) = ''declining''"
    unfolding h trend2 policy2 by (simp add: examplePoint_def float64_eval)
  with rule show ?thesis by simp
qed

section \<open>Properties of sorting, map iteration and the TicketGenerator\<close>

lemma insertSorted_mset: "mset (insertSorted before x ys) = add_mset x (mset ys)"
  by (induction ys) auto

lemma sortSlice_mset: "mset (sortSlice before xs) = mset xs"
  by (induction xs) (auto simp: sortSlice_def insertSorted_mset)

lemma sortSlice_set: "set (sortSlice before xs) = set xs"
  using sortSlice_mset[of before xs] by (metis set_mset_mset)

lemma sortSlice_length: "length (sortSlice before xs) = length xs"
  using sortSlice_mset[of before xs] by (metis size_mset)

lemma insertSorted_set: "set (insertSorted before x ys) = insert x (set ys)"
  using insertSorted_mset[of before x ys] by (metis set_mset_add_mset_insert set_mset_mset)

lemma insertSorted_sorted:
  fixes key :: "'a \<Rightarrow> int"
  assumes "sorted_wrt (\<lambda>a b. key a \<ge> key b) ys"
  shows "sorted_wrt (\<lambda>a b. key a \<ge> key b) (insertSorted (\<lambda>a b. key a > key b) x ys)"
  using assms by (induction ys) (auto simp: insertSorted_set)

lemma sortSlice_sorted:
  fixes key :: "'a \<Rightarrow> int"
  shows "sorted_wrt (\<lambda>a b. key a \<ge> key b) (sortSlice (\<lambda>a b. key a > key b) xs)"
  by (induction xs) (auto simp: sortSlice_def insertSorted_sorted)

lemma rangeOrder_mset: "mset (rangeOrder choices xs) = mset xs"
proof (induction choices xs rule: rangeOrder.induct)
  case (1 choices)
  then show ?case by simp
next
  case (2 x xs)
  then show ?case by simp
next
  case (3 c choices x xs)
  let ?l = "x # xs"
  let ?i = "c mod length ?l"
  have i: "?i < length ?l" by simp
  have "mset ?l = mset (take ?i ?l @ ?l ! ?i # drop (Suc ?i) ?l)"
    using i by (metis id_take_nth_drop)
  also have "\<dots> = add_mset (?l ! ?i) (mset (take ?i ?l @ drop (Suc ?i) ?l))" by simp
  finally have "mset ?l = add_mset (?l ! ?i) (mset (take ?i ?l @ drop (Suc ?i) ?l))" .
  with 3 show ?case by (simp add: Let_def)
qed

lemma rangeOrder_set: "set (rangeOrder choices xs) = set xs"
  using rangeOrder_mset[of choices xs] by (metis set_mset_mset)

lemma rangeOrder_length: "length (rangeOrder choices xs) = length xs"
  using rangeOrder_mset[of choices xs] by (metis size_mset)

text \<open>
  The two models together lose no behaviour of the code: every order of the entries is
  the order of some choice sequence, and a list that is already in order is left as it
  is by the sort. So whatever sorted permutation Go's map iteration and \<^verbatim>\<open>sort.Slice\<close>
  produce, the model produces it for the choice sequence that visits the entries in
  that order.
\<close>

lemma rangeOrder_reaches:
  "mset ys = mset xs \<Longrightarrow> \<exists>choices. rangeOrder choices xs = ys"
proof (induction ys arbitrary: xs)
  case Nil
  then have "xs = []" by simp
  then show ?case by (intro exI[of _ "[]"]) simp
next
  case (Cons y ys)
  then have "y \<in> set xs" by (metis list.set_intros(1) mset_eq_setD)
  then obtain i where i: "i < length xs" "xs ! i = y" by (auto simp: in_set_conv_nth)
  let ?rest = "take i xs @ drop (Suc i) xs"
  have "mset xs = add_mset y (mset ?rest)"
    using i by (metis id_take_nth_drop mset.simps(2) mset_append union_mset_add_mset_right)
  with Cons.prems have "mset ys = mset ?rest" by simp
  from Cons.IH[OF this] obtain choices where c: "rangeOrder choices ?rest = ys" by blast
  from i obtain x xs' where xs: "xs = x # xs'" by (cases xs) auto
  have "rangeOrder (i # choices) xs = y # ys"
    using i c unfolding xs by (simp add: Let_def)
  then show ?case by blast
qed

lemma insertSorted_front:
  "\<forall>y \<in> set ys. \<not> before y x \<Longrightarrow> insertSorted before x ys = x # ys"
  by (cases ys) simp_all

lemma sortSlice_sorted_same:
  "sorted_wrt (\<lambda>a b. \<not> before b a) xs \<Longrightarrow> sortSlice before xs = xs"
proof (induction xs)
  case Nil
  then show ?case by (simp add: sortSlice_def)
next
  case (Cons x xs)
  then have "sortSlice before xs = xs" and "\<forall>y \<in> set xs. \<not> before y x" by simp_all
  then show ?case using insertSorted_front[of xs before x] by (simp add: sortSlice_def)
qed

lemma makeTicket_fields [simp]:
  "FeatureBucket (makeTicket now sanitize date priority entry) = fst entry"
  "Priority (makeTicket now sanitize date priority entry) = priority"
  "AffectedCount (makeTicket now sanitize date priority entry) = TotalCount (snd entry)"
  "tSeverity (makeTicket now sanitize date priority entry) =
     (if TotalCount (snd entry) \<ge> 10 then ''critical''
      else if TotalCount (snd entry) \<ge> 5 then ''high'' else ''medium'')"
  by (simp_all add: makeTicket_def Let_def split: prod.splits)

lemma ticketLoop_eq:
  "ticketLoop now sanitize date maxTickets entries tickets priority =
     tickets @ map (\<lambda>(i, entry). makeTicket now sanitize date (priority + int i) entry)
       (enumerate 0 (take (nat (maxTickets - int (length tickets))) entries))"
proof (induction entries arbitrary: tickets priority)
  case Nil
  then show ?case by simp
next
  case (Cons entry rest)
  show ?case
  proof (cases "int (length tickets) \<ge> maxTickets")
    case True
    then show ?thesis by simp
  next
    case False
    then have n: "nat (maxTickets - int (length tickets)) =
        Suc (nat (maxTickets - int (length (tickets @ [makeTicket now sanitize date priority entry]))))"
      by simp
    have shift: "map (\<lambda>(i, entry). makeTicket now sanitize date (priority + int i) entry)
          (enumerate (Suc 0) xs) =
        map (\<lambda>(i, entry). makeTicket now sanitize date (priority + 1 + int i) entry)
          (enumerate 0 xs)" for xs
      by (simp add: enumerate_Suc_eq[of 0] split_def add.assoc)
    show ?thesis
      using False by (simp only: ticketLoop.simps if_False Cons.IH n take_Suc_Cons
          enumerate_simps list.map split_conv append_assoc append_Cons append_Nil shift)
        simp
  qed
qed

lemma generateTickets_eq:
  "generateTickets now sanitize choices date agg =
     map (\<lambda>(i, entry). makeTicket now sanitize date (1 + int i) entry)
       (enumerate 0 (take 5
          (sortSlice (\<lambda>a b. TotalCount (snd a) > TotalCount (snd b))
             (filter (\<lambda>(bucket, summary). TotalCount summary \<ge> 3)
                (rangeOrder choices (FeatureBuckets agg))))))"
  by (simp add: generateTickets_def Let_def ticketLoop_eq)

lemma map_snd_enumerate: "map snd (enumerate n xs) = xs"
  by (simp add: enumerate_eq_zip)

lemma map_fst_enumerate: "map fst (enumerate n xs) = [n..<n + length xs]"
  by (simp add: enumerate_eq_zip)

text \<open>
  C2. For every period summary, every order of iteration over its buckets and every
  date: at most 5 tickets are returned; every ticket stands for a bucket of the summary
  whose total count is at least 3, carries that count and has severity \<open>critical\<close>
  for a count of at least 10, \<open>high\<close> for at least 5, \<open>medium\<close> otherwise; the
  counts of the tickets are in descending order and the priorities are 1, 2, ... in this
  order; and the tickets are the first five of a ranking of all buckets with a count of
  at least 3 by descending count.
\<close>

theorem generateTickets_ranked:
  "let tickets = generateTickets now sanitize choices date agg in
     length tickets \<le> 5 \<and>
     (\<forall>t \<in> set tickets. \<exists>summary.
        (FeatureBucket t, summary) \<in> set (FeatureBuckets agg) \<and>
        TotalCount summary \<ge> 3 \<and>
        AffectedCount t = TotalCount summary \<and>
        tSeverity t =
          (if TotalCount summary \<ge> 10 then ''critical''
           else if TotalCount summary \<ge> 5 then ''high'' else ''medium'')) \<and>
     sorted_wrt (\<ge>) (map AffectedCount tickets) \<and>
     map Priority tickets = map (\<lambda>i. int i + 1) [0..<length tickets] \<and>
     (\<exists>ranked.
        mset ranked =
          mset (filter (\<lambda>(bucket, summary). TotalCount summary \<ge> 3) (FeatureBuckets agg)) \<and>
        sorted_wrt (\<ge>) (map (\<lambda>(bucket, summary). TotalCount summary) ranked) \<and>
        map (\<lambda>t. (FeatureBucket t, AffectedCount t)) tickets =
          map (\<lambda>(bucket, summary). (bucket, TotalCount summary)) (take 5 ranked))"
proof -
  define significant where
    "significant = filter (\<lambda>(bucket, summary). TotalCount summary \<ge> 3)
       (rangeOrder choices (FeatureBuckets agg))"
  define ranked where
    "ranked = sortSlice (\<lambda>a b. TotalCount (snd a) > TotalCount (snd b)) significant"
  define tickets where "tickets = generateTickets now sanitize choices date agg"
  have tickets: "tickets =
      map (\<lambda>(i, entry). makeTicket now sanitize date (1 + int i) entry)
        (enumerate 0 (take 5 ranked))"
    unfolding tickets_def ranked_def significant_def by (rule generateTickets_eq)
  have len: "length tickets = length (take 5 ranked)" by (simp add: tickets)
  have ranked_mset: "mset ranked =
      mset (filter (\<lambda>(bucket, summary). TotalCount summary \<ge> 3) (FeatureBuckets agg))"
    unfolding ranked_def significant_def
    by (simp add: sortSlice_mset mset_filter rangeOrder_mset)
  have ranked_sorted: "sorted_wrt (\<lambda>a b. TotalCount (snd a) \<ge> TotalCount (snd b)) ranked"
    unfolding ranked_def by (rule sortSlice_sorted)
  have ranked_sorted': "sorted_wrt (\<ge>) (map (\<lambda>(bucket, summary). TotalCount summary) ranked)"
    using ranked_sorted by (simp add: sorted_wrt_map split_def)
  have fields: "map (\<lambda>t. (FeatureBucket t, AffectedCount t)) tickets =
      map (\<lambda>(bucket, summary). (bucket, TotalCount summary)) (take 5 ranked)"
  proof -
    have "map (\<lambda>t. (FeatureBucket t, AffectedCount t)) tickets =
        map ((\<lambda>(bucket, summary). (bucket, TotalCount summary)) \<circ> snd) (enumerate 0 (take 5 ranked))"
      unfolding tickets by (simp add: split_def comp_def)
    also have "\<dots> = map (\<lambda>(bucket, summary). (bucket, TotalCount summary)) (take 5 ranked)"
      by (simp only: map_map[symmetric] map_snd_enumerate)
    finally show ?thesis .
  qed
  have counts: "map AffectedCount tickets = map (\<lambda>(bucket, summary). TotalCount summary) (take 5 ranked)"
  proof -
    have "map AffectedCount tickets = map snd (map (\<lambda>t. (FeatureBucket t, AffectedCount t)) tickets)"
      by (simp add: comp_def)
    also have "\<dots> = map (\<lambda>(bucket, summary). TotalCount summary) (take 5 ranked)"
      unfolding fields by (simp add: comp_def split_def)
    finally show ?thesis .
  qed
  have c1: "length tickets \<le> 5" by (simp add: len)
  have c2: "\<exists>summary. (FeatureBucket t, summary) \<in> set (FeatureBuckets agg) \<and>
        TotalCount summary \<ge> 3 \<and> AffectedCount t = TotalCount summary \<and>
        tSeverity t =
          (if TotalCount summary \<ge> 10 then ''critical''
           else if TotalCount summary \<ge> 5 then ''high'' else ''medium'')"
    if "t \<in> set tickets" for t
  proof -
    from that obtain i entry where e: "(i, entry) \<in> set (enumerate 0 (take 5 ranked))"
      and t: "t = makeTicket now sanitize date (1 + int i) entry"
      unfolding tickets by auto
    from e have "snd (i, entry) \<in> snd ` set (enumerate 0 (take 5 ranked))" by (rule imageI)
    then have "entry \<in> set (map snd (enumerate 0 (take 5 ranked)))" by (simp only: set_map snd_conv)
    then have "entry \<in> set (take 5 ranked)" by (simp only: map_snd_enumerate)
    then have "entry \<in> set ranked" by (rule in_set_takeD)
    then have "entry \<in># mset ranked" by simp
    then have "entry \<in> set (filter (\<lambda>(bucket, summary). TotalCount summary \<ge> 3) (FeatureBuckets agg))"
      unfolding ranked_mset by simp
    then have "(fst entry, snd entry) \<in> set (FeatureBuckets agg)" "TotalCount (snd entry) \<ge> 3"
      by (auto simp: split_def)
    then show ?thesis unfolding t by (intro exI[of _ "snd entry"]) simp
  qed
  have c3: "sorted_wrt (\<ge>) (map AffectedCount tickets)"
    unfolding counts take_map[symmetric] using ranked_sorted' by (rule sorted_wrt_take)
  have c4: "map Priority tickets = map (\<lambda>i. int i + 1) [0..<length tickets]"
  proof -
    have "map Priority tickets = map ((\<lambda>i. int i + 1) \<circ> fst) (enumerate 0 (take 5 ranked))"
      unfolding tickets by (simp add: split_def comp_def add.commute)
    also have "\<dots> = map (\<lambda>i. int i + 1) [0..<length (take 5 ranked)]"
      by (simp only: map_map[symmetric] map_fst_enumerate add_0)
    finally show ?thesis unfolding len .
  qed
  show ?thesis
    unfolding Let_def tickets_def[symmetric]
    using c1 c2 c3 c4 ranked_mset ranked_sorted' fields by blast
qed


text \<open>
  The period of the specification with A: 12, B: 4, C: 2 gives two tickets, A with
  priority 1 and severity \<open>critical\<close>, B with priority 2 and severity \<open>medium\<close>.
\<close>

theorem generateTickets_witness:
  "map (\<lambda>t. (FeatureBucket t, Priority t, tSeverity t))
     (generateTickets 0 id [] ''2025-12-12'' exampleAggregate) =
     [(''A'', 1, ''critical''), (''B'', 2, ''medium'')] \<and>
   length (generateTickets 0 id [] ''2025-12-12'' exampleAggregate) \<le> 5"
proof -
  have e: "map (\<lambda>t. (FeatureBucket t, Priority t, tSeverity t))
     (generateTickets 0 id [] ''2025-12-12'' exampleAggregate) =
     [(''A'', 1, ''critical''), (''B'', 2, ''medium'')]"
    by (simp add: generateTickets_eq exampleAggregate_def exampleSummary_def sortSlice_def)
  from generateTickets_ranked[of 0 id "[]" "''2025-12-12''" exampleAggregate]
  have "length (generateTickets 0 id [] ''2025-12-12'' exampleAggregate) \<le> 5"
    unfolding Let_def by blast
  with e show ?thesis by blast
qed

section \<open>Properties of the Aggregator\<close>

lemma aggregateIssue_satisfaction [simp]:
  "totalSatisfaction (aggregateIssue sellerID st issue) = totalSatisfaction st"
  "satisfactionCount (aggregateIssue sellerID st issue) = satisfactionCount st"
  "AvgSatisfaction (lAgg (aggregateIssue sellerID st issue)) = AvgSatisfaction (lAgg st)"
  by (simp_all add: aggregateIssue_def Let_def)

lemma aggregateIssues_satisfaction [simp]:
  "totalSatisfaction (foldl (aggregateIssue sellerID) st issues) = totalSatisfaction st"
  "satisfactionCount (foldl (aggregateIssue sellerID) st issues) = satisfactionCount st"
  "AvgSatisfaction (lAgg (foldl (aggregateIssue sellerID) st issues)) = AvgSatisfaction (lAgg st)"
  by (induction issues arbitrary: st) simp_all

lemma aggregateAnalysis_satisfaction:
  "totalSatisfaction (aggregateAnalysis st a) =
     (if SatisfactionScore (Intent a) > 0
      then wrap64 (totalSatisfaction st + SatisfactionScore (Intent a))
      else totalSatisfaction st)"
  "satisfactionCount (aggregateAnalysis st a) =
     (if SatisfactionScore (Intent a) > 0 then satisfactionCount st + 1
      else satisfactionCount st)"
  "AvgSatisfaction (lAgg (aggregateAnalysis st a)) = AvgSatisfaction (lAgg st)"
  by (simp_all add: aggregateAnalysis_def Let_def)

lemma positiveScores_Cons:
  "positiveScores (a # analyses) =
     (if SatisfactionScore (Intent a) > 0
      then SatisfactionScore (Intent a) # positiveScores analyses
      else positiveScores analyses)"
  by (simp add: positiveScores_def)

lemma positiveScores_sum: "int (length (positiveScores analyses)) \<le> sum_list (positiveScores analyses)"
  by (induction analyses) (simp_all add: positiveScores_Cons, simp add: positiveScores_def)

lemma wrap64_add: "wrap64 (wrap64 a + b) = wrap64 (a + b)"
proof -
  have "wrap64 (wrap64 a + b) = ((a + 2 ^ 63) mod 2 ^ 64 + b) mod 2 ^ 64 - 2 ^ 63"
    by (simp add: wrap64_def)
  also have "\<dots> = (a + 2 ^ 63 + b) mod 2 ^ 64 - 2 ^ 63"
    by (simp only: mod_add_left_eq)
  also have "\<dots> = wrap64 (a + b)"
    by (simp add: wrap64_def ac_simps)
  finally show ?thesis .
qed

text \<open>
  The loop over the assessments adds the scores that are greater than 0 in 64-bit
  arithmetic and counts them; it leaves the average alone.
\<close>

lemma aggregate_all_satisfaction:
  "totalSatisfaction (foldl aggregateAnalysis st analyses) =
     (if positiveScores analyses = [] then totalSatisfaction st
      else wrap64 (totalSatisfaction st + sum_list (positiveScores analyses))) \<and>
   satisfactionCount (foldl aggregateAnalysis st analyses) =
     satisfactionCount st + int (length (positiveScores analyses)) \<and>
   AvgSatisfaction (lAgg (foldl aggregateAnalysis st analyses)) = AvgSatisfaction (lAgg st)"
proof (induction analyses arbitrary: st)
  case Nil
  then show ?case by (simp add: positiveScores_def)
next
  case (Cons a analyses)
  show ?case
  proof (cases "SatisfactionScore (Intent a) > 0")
    case True
    have "wrap64 (wrap64 (totalSatisfaction st + SatisfactionScore (Intent a)) +
            sum_list (positiveScores analyses)) =
          wrap64 (totalSatisfaction st + (SatisfactionScore (Intent a) +
            sum_list (positiveScores analyses)))"
      unfolding wrap64_add by (simp add: add.assoc)
    then show ?thesis
      using Cons.IH[of "aggregateAnalysis st a"] True
      by (simp add: positiveScores_Cons aggregateAnalysis_satisfaction)
  next
    case False
    then show ?thesis
      using Cons.IH[of "aggregateAnalysis st a"]
      by (simp add: positiveScores_Cons aggregateAnalysis_satisfaction)
  qed
qed

lemma average_wrapped:
  "AvgSatisfaction (buildAggregate now choices problemChoices date analyses) =
     (if positiveScores analyses = [] then Finite 0
      else fdiv (float64_of_int (wrap64 (sum_list (positiveScores analyses))))
             (float64_of_int (int (length (positiveScores analyses)))))"
proof -
  define st0 :: AggLoop where "st0 =
           \<lparr> lAgg = \<lparr> aDate = date, aTotalCalls = int (length analyses), TotalIssues = 0,
             FeatureBuckets = [], SentimentBreakdown = Map.empty,
             ChurnRiskBreakdown = Map.empty, UpsellOpportunities = 0,
             AvgSatisfaction = Finite 0, GeneratedAt = now \<rparr>, bucketSellers = (\<lambda>bucket. []), bucketProblems = [],
             bucketSeverity = (\<lambda>bucket. Map.empty), bucketExamples = (\<lambda>bucket. []),
             totalSatisfaction = 0, satisfactionCount = 0 \<rparr>"
  define st where "st = foldl aggregateAnalysis st0 analyses"
  from aggregate_all_satisfaction[of st0 analyses]
  have total: "positiveScores analyses \<noteq> [] \<Longrightarrow>
        totalSatisfaction st = wrap64 (sum_list (positiveScores analyses))"
    and cnt: "satisfactionCount st = int (length (positiveScores analyses))"
    and avg: "AvgSatisfaction (lAgg st) = Finite 0"
    unfolding st_def by (simp_all add: st0_def)
  have "AvgSatisfaction (buildAggregate now choices problemChoices date analyses) =
      (if satisfactionCount st > 0
       then fdiv (float64_of_int (totalSatisfaction st)) (float64_of_int (satisfactionCount st))
       else AvgSatisfaction (lAgg st))"
    unfolding buildAggregate_def Let_def st_def st0_def by simp
  then show ?thesis using total unfolding cnt avg by simp
qed

lemma average_rounded:
  assumes some: "positiveScores analyses \<noteq> []"
    and bound: "sum_list (positiveScores analyses) \<le> 2 ^ 53"
  shows "AvgSatisfaction (buildAggregate now choices problemChoices date analyses) =
     round64 (real_of_int (sum_list (positiveScores analyses)) /
              real (length (positiveScores analyses)))"
proof -
  define s where "s = sum_list (positiveScores analyses)"
  define k where "k = int (length (positiveScores analyses))"
  have k: "0 < k" using some by (simp add: k_def)
  have ks: "k \<le> s" unfolding k_def s_def by (rule positiveScores_sum)
  have w: "wrap64 s = s" using k ks bound by (intro wrap64_id) (simp_all add: s_def)
  have fs: "float64_of_int s = Finite (of_int s)"
    using k ks bound by (intro float64_of_int_exact) (simp add: s_def)
  have fk: "float64_of_int k = Finite (of_int k)"
    using k ks bound by (intro float64_of_int_exact) (simp add: s_def)
  have "fdiv (Finite (of_int s)) (Finite (of_int k)) = round64 (real_of_int s / real_of_int k)"
    using k ks by (simp add: fdiv_def isInf_def isZero_def)
  then show ?thesis
    unfolding average_wrapped using some
    by (simp add: s_def[symmetric] k_def[symmetric] w fs fk) (simp add: k_def)
qed

lemma overflowCalls_scores: "positiveScores overflowCalls = [2 ^ 63 - 1, 1]"
  by (simp add: positiveScores_def overflowCalls_def exampleAnalysis_def)

lemma roundedCalls_scores: "positiveScores roundedCalls = [2 ^ 53 + 1]"
  by (simp add: positiveScores_def roundedCalls_def exampleAnalysis_def)

text \<open>
  C10, as stated, fails on two counts. For the positive scores
  \<open>2 ^ 63 - 1\<close> and 1, whose mean is \<open>2 ^ 62\<close>, the sum wraps around and the average
  satisfaction is \<open>- 2 ^ 62\<close>. For the single score \<open>2 ^ 53 + 1\<close>, which is its own mean,
  the average satisfaction is \<open>2 ^ 53\<close>: the score is not a \<^verbatim>\<open>float64\<close>.
\<close>

theorem average_not_mean:
  "positiveScores overflowCalls = [2 ^ 63 - 1, 1] \<and>
   real_of_int (sum_list (positiveScores overflowCalls)) /
     real (length (positiveScores overflowCalls)) = 2 ^ 62 \<and>
   AvgSatisfaction (buildAggregate 0 [] (\<lambda>bucket. []) ''2025-12-12'' overflowCalls) =
     Finite (- (2 ^ 62)) \<and>
   positiveScores roundedCalls = [2 ^ 53 + 1] \<and>
   AvgSatisfaction (buildAggregate 0 [] (\<lambda>bucket. []) ''2025-12-12'' roundedCalls) =
     Finite (2 ^ 53)"
proof -
  have mean: "real_of_int (sum_list (positiveScores overflowCalls)) /
     real (length (positiveScores overflowCalls)) = 2 ^ 62"
    unfolding overflowCalls_scores by simp
  have a1: "AvgSatisfaction (buildAggregate 0 [] (\<lambda>bucket. []) ''2025-12-12'' overflowCalls) =
     Finite (- (2 ^ 62))"
    unfolding average_wrapped overflowCalls_scores
    by (simp add: wrap64_def float64_eval)
  have a2: "AvgSatisfaction (buildAggregate 0 [] (\<lambda>bucket. []) ''2025-12-12'' roundedCalls) =
     Finite (2 ^ 53)"
    unfolding average_wrapped roundedCalls_scores
    by (simp add: wrap64_def float64_eval)
  from overflowCalls_scores mean a1 roundedCalls_scores a2 show ?thesis by blast
qed

text \<open>
  C10, as amended. Only the satisfaction scores that are strictly
  greater than 0 enter the average satisfaction of the period summary; a score of 0 or
  less enters neither the sum nor the count. With \<open>k\<close> such scores and \<open>s\<close> their sum in
  64-bit arithmetic the average is \<^verbatim>\<open>float64(s) / float64(k)\<close>, and it is 0 when there
  is none. Whenever the positive scores add up to at most \<open>2 ^ 53\<close>, this is their
  mean rounded to the nearest \<^verbatim>\<open>float64\<close>.
\<close>

theorem average_satisfaction:
  "AvgSatisfaction (buildAggregate now choices problemChoices date analyses) =
     (if positiveScores analyses = [] then Finite 0
      else fdiv (float64_of_int (wrap64 (sum_list (positiveScores analyses))))
             (float64_of_int (int (length (positiveScores analyses))))) \<and>
   (positiveScores analyses \<noteq> [] \<and> sum_list (positiveScores analyses) \<le> 2 ^ 53 \<longrightarrow>
    AvgSatisfaction (buildAggregate now choices problemChoices date analyses) =
      round64 (real_of_int (sum_list (positiveScores analyses)) /
               real (length (positiveScores analyses))))"
  using average_wrapped average_rounded by blast

theorem average_satisfaction_witness:
  "positiveScores scoredCalls = [4, 2] \<and>
   sum_list (positiveScores scoredCalls) \<le> 2 ^ 53 \<and>
   AvgSatisfaction (buildAggregate 0 [] (\<lambda>bucket. []) ''2025-12-12'' scoredCalls) = Finite 3 \<and>
   positiveScores thirdsCalls = [1, 1, 2] \<and>
   sum_list (positiveScores thirdsCalls) \<le> 2 ^ 53 \<and>
   AvgSatisfaction (buildAggregate 0 [] (\<lambda>bucket. []) ''2025-12-12'' thirdsCalls) =
     Finite (6004799503160661 / 4503599627370496)"
proof -
  have p: "positiveScores scoredCalls = [4, 2]"
    by (simp add: positiveScores_def scoredCalls_def exampleAnalysis_def)
  have q: "positiveScores thirdsCalls = [1, 1, 2]"
    by (simp add: positiveScores_def thirdsCalls_def exampleAnalysis_def)
  have hp: "positiveScores scoredCalls \<noteq> [] \<and> sum_list (positiveScores scoredCalls) \<le> 2 ^ 53"
    unfolding p by simp
  have hq: "positiveScores thirdsCalls \<noteq> [] \<and> sum_list (positiveScores thirdsCalls) \<le> 2 ^ 53"
    unfolding q by simp
  from average_satisfaction[of 0 "[]" "\<lambda>bucket. []" "''2025-12-12''" scoredCalls] hp
  have "AvgSatisfaction (buildAggregate 0 [] (\<lambda>bucket. []) ''2025-12-12'' scoredCalls) =
      round64 (real_of_int (sum_list (positiveScores scoredCalls)) /
               real (length (positiveScores scoredCalls)))"
    by blast
  then have r1: "AvgSatisfaction (buildAggregate 0 [] (\<lambda>bucket. []) ''2025-12-12'' scoredCalls) =
      Finite 3"
    unfolding p by (simp add: float64_eval)
  from average_satisfaction[of 0 "[]" "\<lambda>bucket. []" "''2025-12-12''" thirdsCalls] hq
  have "AvgSatisfaction (buildAggregate 0 [] (\<lambda>bucket. []) ''2025-12-12'' thirdsCalls) =
      round64 (real_of_int (sum_list (positiveScores thirdsCalls)) /
               real (length (positiveScores thirdsCalls)))"
    by blast
  then have r2: "AvgSatisfaction (buildAggregate 0 [] (\<lambda>bucket. []) ''2025-12-12'' thirdsCalls) =
      Finite (6004799503160661 / 4503599627370496)"
    unfolding q by (simp add: float64_eval)
  from p hp r1 q hq r2 show ?thesis by blast
qed

section \<open>Properties of the IssueTracker\<close>

lemma matchIndex_bounds:
  "matchIndex xs issue i = - 1 \<or> (i \<le> matchIndex xs issue i \<and> matchIndex xs issue i < i + int (length xs))"
  by (induction xs arbitrary: i) (auto, force+)

lemma matchIndex_none:
  assumes "0 \<le> i"
  shows "matchIndex xs issue i < 0 \<longleftrightarrow> (\<forall>t \<in> set xs. \<not> isSameIssue t issue)"
  using assms
proof (induction xs arbitrary: i)
  case Nil
  then show ?case by simp
next
  case (Cons t xs)
  then show ?case by (cases "isSameIssue t issue") auto
qed

lemma matchIndex_first:
  assumes "0 \<le> i" and "0 \<le> matchIndex xs issue i"
  shows "nat (matchIndex xs issue i - i) < length xs \<and>
         isSameIssue (xs ! nat (matchIndex xs issue i - i)) issue \<and>
         (\<forall>t \<in> set (take (nat (matchIndex xs issue i - i)) xs). \<not> isSameIssue t issue)"
  using assms
proof (induction xs arbitrary: i)
  case Nil
  then show ?case by simp
next
  case (Cons t xs)
  show ?case
  proof (cases "isSameIssue t issue")
    case True
    then show ?thesis by simp
  next
    case False
    from Cons.prems have i1: "0 \<le> i + 1" and m: "0 \<le> matchIndex xs issue (i + 1)"
      using False by simp_all
    from matchIndex_bounds[of xs issue "i + 1"] m
    have ge: "i + 1 \<le> matchIndex xs issue (i + 1)" by auto
    then have n: "nat (matchIndex xs issue (i + 1) - i) = Suc (nat (matchIndex xs issue (i + 1) - (i + 1)))"
      by simp
    from Cons.IH[OF i1 m] False show ?thesis by (simp add: n)
  qed
qed

lemma resolveLoop_eq:
  "resolveLoop now mentioned xs (resolved, still, cnt) =
     (resolved @ map (\<lambda>t. t \<lparr> Status := ''resolved'', ResolvedAt := Some now \<rparr>)
                  (filter (\<lambda>t. IssueID t \<notin> mentioned) xs),
      still @ filter (\<lambda>t. IssueID t \<in> mentioned) xs,
      cnt + int (length (filter (\<lambda>t. IssueID t \<notin> mentioned) xs)))"
  by (induction xs arbitrary: resolved still cnt) simp_all

lemma processIssues_eq:
  "processIssues now profile analysis =
    (let (profile1, mentioned) = foldl (trackIssue now analysis) (profile, {}) (Issues analysis)
     in if PromptResolution (Intent analysis) \<and> ActiveIssues profile1 \<noteq> []
        then (profile1
               \<lparr> ResolvedIssues := ResolvedIssues profile1 @
                   map (\<lambda>t. t \<lparr> Status := ''resolved'', ResolvedAt := Some now \<rparr>)
                     (filter (\<lambda>t. IssueID t \<notin> mentioned) (ActiveIssues profile1)),
                 ActiveIssues := filter (\<lambda>t. IssueID t \<in> mentioned) (ActiveIssues profile1) \<rparr>,
              int (length (filter (\<lambda>t. IssueID t \<notin> mentioned) (ActiveIssues profile1))))
        else (profile1, 0))"
  by (simp add: processIssues_def resolveLoop_eq Let_def split: prod.splits)

text \<open>What one step of the tracking loop does to the list of active issues.\<close>

lemma trackIssue_cases:
  obtains (matched) k where
      "k < length (ActiveIssues (fst st))"
      "isSameIssue (ActiveIssues (fst st) ! k) issue"
      "\<forall>t \<in> set (take k (ActiveIssues (fst st))). \<not> isSameIssue t issue"
      "\<exists>t'. ActiveIssues (fst (trackIssue now analysis st issue)) = (ActiveIssues (fst st)) [k := t'] \<and>
            IssueID t' = IssueID (ActiveIssues (fst st) ! k) \<and>
            Bucket t' = Bucket (ActiveIssues (fst st) ! k) \<and>
            MentionCount t' = MentionCount (ActiveIssues (fst st) ! k) + 1 \<and>
            CallIDs t' = CallIDs (ActiveIssues (fst st) ! k) @ [CallID analysis] \<and>
            IsRecurring t' = (MentionCount t' \<ge> 2)"
      "snd (trackIssue now analysis st issue) = insert (IssueID (ActiveIssues (fst st) ! k)) (snd st)"
  | (created) "\<forall>t \<in> set (ActiveIssues (fst st)). \<not> isSameIssue t issue"
      "\<exists>t'. ActiveIssues (fst (trackIssue now analysis st issue)) = ActiveIssues (fst st) @ [t'] \<and>
            IssueID t' = newIssueID (GluserID (fst st)) (CallID analysis)
                           (int (length (ActiveIssues (fst st)))) \<and>
            Bucket t' = iBucket issue \<and> MentionCount t' = 1 \<and>
            CallIDs t' = [CallID analysis] \<and> \<not> IsRecurring t'"
      "snd (trackIssue now analysis st issue) =
         insert (newIssueID (GluserID (fst st)) (CallID analysis)
                   (int (length (ActiveIssues (fst st))))) (snd st)"
proof (cases "0 \<le> matchIndex (ActiveIssues (fst st)) issue 0")
  case True
  let ?k = "nat (matchIndex (ActiveIssues (fst st)) issue 0)"
  from matchIndex_first[of 0, OF _ True]
  have k: "?k < length (ActiveIssues (fst st))"
    "isSameIssue (ActiveIssues (fst st) ! ?k) issue"
    "\<forall>t \<in> set (take ?k (ActiveIssues (fst st))). \<not> isSameIssue t issue"
    by simp_all
  show ?thesis
  proof (rule matched[of ?k])
    show "\<exists>t'. ActiveIssues (fst (trackIssue now analysis st issue)) = (ActiveIssues (fst st)) [?k := t'] \<and>
            IssueID t' = IssueID (ActiveIssues (fst st) ! ?k) \<and>
            Bucket t' = Bucket (ActiveIssues (fst st) ! ?k) \<and>
            MentionCount t' = MentionCount (ActiveIssues (fst st) ! ?k) + 1 \<and>
            CallIDs t' = CallIDs (ActiveIssues (fst st) ! ?k) @ [CallID analysis] \<and>
            IsRecurring t' = (MentionCount t' \<ge> 2)"
      using True
      apply (simp add: trackIssue_def Let_def split_def split del: if_split)
      apply (rule exI, rule conjI, rule refl)
      apply simp
      done
    show "snd (trackIssue now analysis st issue) = insert (IssueID (ActiveIssues (fst st) ! ?k)) (snd st)"
      using True by (simp add: trackIssue_def Let_def split_def)
  qed (use k in simp_all)
next
  case False
  then have none: "\<forall>t \<in> set (ActiveIssues (fst st)). \<not> isSameIssue t issue"
    using matchIndex_none[of 0 "ActiveIssues (fst st)" issue] by simp
  show ?thesis
  proof (rule created)
    show "\<exists>t'. ActiveIssues (fst (trackIssue now analysis st issue)) = ActiveIssues (fst st) @ [t'] \<and>
            IssueID t' = newIssueID (GluserID (fst st)) (CallID analysis)
                           (int (length (ActiveIssues (fst st)))) \<and>
            Bucket t' = iBucket issue \<and> MentionCount t' = 1 \<and>
            CallIDs t' = [CallID analysis] \<and> \<not> IsRecurring t'"
      using False by (simp add: trackIssue_def Let_def split_def)
    show "snd (trackIssue now analysis st issue) =
         insert (newIssueID (GluserID (fst st)) (CallID analysis)
                   (int (length (ActiveIssues (fst st))))) (snd st)"
      using False by (simp add: trackIssue_def Let_def split_def)
  qed (rule none)
qed

lemma trackIssue_other [simp]:
  "GluserID (fst (trackIssue now analysis st issue)) = GluserID (fst st)"
  "ResolvedIssues (fst (trackIssue now analysis st issue)) = ResolvedIssues (fst st)"
  "CallHistory (fst (trackIssue now analysis st issue)) = CallHistory (fst st)"
  "TotalCalls (fst (trackIssue now analysis st issue)) = TotalCalls (fst st)"
  "CreatedAt (fst (trackIssue now analysis st issue)) = CreatedAt (fst st)"
  by (simp_all add: trackIssue_def Let_def split_def)

lemma trackIssues_other [simp]:
  "GluserID (fst (foldl (trackIssue now analysis) st issues)) = GluserID (fst st)"
  "ResolvedIssues (fst (foldl (trackIssue now analysis) st issues)) = ResolvedIssues (fst st)"
  "CallHistory (fst (foldl (trackIssue now analysis) st issues)) = CallHistory (fst st)"
  "TotalCalls (fst (foldl (trackIssue now analysis) st issues)) = TotalCalls (fst st)"
  "CreatedAt (fst (foldl (trackIssue now analysis) st issues)) = CreatedAt (fst st)"
  by (induction issues arbitrary: st) simp_all

lemma processIssues_other [simp]:
  "GluserID (fst (processIssues now profile analysis)) = GluserID profile"
  "CallHistory (fst (processIssues now profile analysis)) = CallHistory profile"
  "TotalCalls (fst (processIssues now profile analysis)) = TotalCalls profile"
  "CreatedAt (fst (processIssues now profile analysis)) = CreatedAt profile"
  by (simp_all add: processIssues_eq Let_def split_def)

lemma digit_inj:
  assumes "d < 10" "e < 10" "''0123456789'' ! d = ''0123456789'' ! e"
  shows "d = e"
proof -
  have "distinct ''0123456789''" by simp
  moreover have "d < length ''0123456789''" "e < length ''0123456789''" using assms by simp_all
  ultimately show ?thesis using assms(3) by (simp only: nth_eq_iff_index_eq)
qed

lemma digit_not_dash:
  assumes "d < 10"
  shows "''0123456789'' ! d \<noteq> CHR ''-''"
proof -
  have "''0123456789'' ! d \<in> set ''0123456789''"
    using assms by (intro nth_mem) simp
  then show ?thesis by auto
qed

lemma show_nat_no_dash: "CHR ''-'' \<notin> set (show_nat n)"
proof (induction n rule: show_nat.induct)
  case (1 n)
  show ?case
  proof (cases "n < 10")
    case True
    then show ?thesis using digit_not_dash[of n] by (subst show_nat.simps) auto
  next
    case False
    have "n mod 10 < 10" by simp
    from digit_not_dash[OF this] 1[OF False] False
    show ?thesis by (subst show_nat.simps) auto
  qed
qed

lemma show_nat_nonempty: "show_nat n \<noteq> []"
  by (subst show_nat.simps) simp

lemma show_nat_length: "length (show_nat n) = 1 \<longleftrightarrow> n < 10"
proof (cases "n < 10")
  case True
  then show ?thesis by (subst show_nat.simps) simp
next
  case False
  then show ?thesis using show_nat_nonempty[of "n div 10"] by (subst show_nat.simps) simp
qed

lemma show_nat_inj: "show_nat n = show_nat m \<Longrightarrow> n = m"
proof (induction n arbitrary: m rule: show_nat.induct)
  case (1 n)
  show ?case
  proof (cases "n < 10")
    case True
    with "1.prems" have m: "m < 10" using show_nat_length[of n] show_nat_length[of m] by simp
    from "1.prems" True m have "''0123456789'' ! n = ''0123456789'' ! m"
      by (simp add: show_nat.simps[of n] show_nat.simps[of m])
    with True m show ?thesis by (rule digit_inj)
  next
    case False
    with "1.prems" have m: "\<not> m < 10" using show_nat_length[of n] show_nat_length[of m] by simp
    from "1.prems" False m
    have eq: "show_nat (n div 10) @ [''0123456789'' ! (n mod 10)] =
              show_nat (m div 10) @ [''0123456789'' ! (m mod 10)]"
      by (simp add: show_nat.simps[of n] show_nat.simps[of m])
    then have "show_nat (n div 10) = show_nat (m div 10)"
      and d: "''0123456789'' ! (n mod 10) = ''0123456789'' ! (m mod 10)"
      by simp_all
    with "1.IH"[OF False] have q: "n div 10 = m div 10" by simp
    have "n mod 10 = m mod 10" by (rule digit_inj[OF _ _ d]) simp_all
    with q show ?thesis by (metis div_mult_mod_eq)
  qed
qed

lemma split_at_last:
  assumes "xs @ s # ys = xs' @ s # ys'" and "s \<notin> set ys" and "s \<notin> set ys'"
  shows "xs = xs' \<and> ys = ys'"
proof -
  have "rev ys @ s # rev xs = rev ys' @ s # rev xs'"
    using assms(1) by (metis rev.simps(2) rev_append append_assoc append_Cons append_Nil)
  then have "takeWhile (\<lambda>x. x \<noteq> s) (rev ys @ s # rev xs) = takeWhile (\<lambda>x. x \<noteq> s) (rev ys' @ s # rev xs')"
    by simp
  moreover have "takeWhile (\<lambda>x. x \<noteq> s) (rev ys @ s # rev xs) = rev ys"
    using assms(2) by (subst takeWhile_append2) auto
  moreover have "takeWhile (\<lambda>x. x \<noteq> s) (rev ys' @ s # rev xs') = rev ys'"
    using assms(3) by (subst takeWhile_append2) auto
  ultimately have "ys = ys'" by simp
  with assms(1) show ?thesis by simp
qed

lemma newIssueID_inj:
  assumes "newIssueID g c (int n) = newIssueID g c' (int n')"
  shows "c = c' \<and> n = n'"
proof -
  from assms have "(g @ ''-'' @ c) @ CHR ''-'' # show_nat n = (g @ ''-'' @ c') @ CHR ''-'' # show_nat n'"
    by (simp add: newIssueID_def show_int_def)
  from split_at_last[OF this show_nat_no_dash show_nat_no_dash]
  have "g @ ''-'' @ c = g @ ''-'' @ c'" and "show_nat n = show_nat n'" by simp_all
  then show ?thesis using show_nat_inj by simp
qed

lemma tracked_tracking: "tracked g S p \<Longrightarrow> tracking g c S p"
  unfolding tracked_def tracking_def by blast

lemma tracking_tracked: "tracking g c S p \<Longrightarrow> tracked g (insert c S) p"
  unfolding tracked_def tracking_def by blast

lemma map_update_same:
  "k < length xs \<Longrightarrow> f y = f (xs ! k) \<Longrightarrow> map f (xs [k := y]) = map f xs"
  by (simp add: map_update list_update_same_conv)

lemma trackIssue_tracking:
  assumes t: "tracking g (CallID analysis) S (fst st)" and fresh: "CallID analysis \<notin> S"
  shows "tracking g (CallID analysis) S (fst (trackIssue now analysis st issue))"
proof (cases rule: trackIssue_cases[of st issue now analysis])
  case (matched k)
  from matched(4) obtain t' where
    a: "ActiveIssues (fst (trackIssue now analysis st issue)) = (ActiveIssues (fst st)) [k := t']"
    and i: "IssueID t' = IssueID (ActiveIssues (fst st) ! k)" by blast
  have ids: "issueIDs (fst (trackIssue now analysis st issue)) = issueIDs (fst st)"
    unfolding issueIDs_def a using matched(1) i by (simp add: map_update_same)
  have len: "length (ActiveIssues (fst (trackIssue now analysis st issue))) =
      length (ActiveIssues (fst st))"
    unfolding a by simp
  from t show ?thesis unfolding tracking_def ids len by simp
next
  case created
  let ?new = "newIssueID (GluserID (fst st)) (CallID analysis) (int (length (ActiveIssues (fst st))))"
  from created(2) obtain t' where
    a: "ActiveIssues (fst (trackIssue now analysis st issue)) = ActiveIssues (fst st) @ [t']"
    and i: "IssueID t' = ?new" by blast
  from t have g: "GluserID (fst st) = g" and d: "distinct (issueIDs (fst st))"
    and origin: "\<forall>id \<in> set (issueIDs (fst st)).
        (\<exists>c' \<in> S. \<exists>n. id = newIssueID g c' (int n)) \<or>
        (\<exists>n < length (ActiveIssues (fst st)). id = newIssueID g (CallID analysis) (int n))"
    unfolding tracking_def by simp_all
  have new: "?new \<notin> set (issueIDs (fst st))"
  proof
    assume "?new \<in> set (issueIDs (fst st))"
    with origin consider c' n where "c' \<in> S" "?new = newIssueID g c' (int n)"
      | n where "n < length (ActiveIssues (fst st))" "?new = newIssueID g (CallID analysis) (int n)"
      by blast
    then show False
    proof cases
      case 1
      then show ?thesis using newIssueID_inj[of g "CallID analysis" _ c' n] fresh g by auto
    next
      case 2
      then show ?thesis using newIssueID_inj[of g "CallID analysis" _ "CallID analysis" n] g by auto
    qed
  qed
  have ids: "set (issueIDs (fst (trackIssue now analysis st issue))) = insert ?new (set (issueIDs (fst st)))"
    unfolding issueIDs_def a by (simp add: i)
  have d': "distinct (issueIDs (fst (trackIssue now analysis st issue)))"
    using d new unfolding issueIDs_def a by (simp add: i)
  have len: "length (ActiveIssues (fst (trackIssue now analysis st issue))) =
      Suc (length (ActiveIssues (fst st)))"
    unfolding a by simp
  show ?thesis
    unfolding tracking_def ids len
  proof (intro conjI ballI)
    show "GluserID (fst (trackIssue now analysis st issue)) = g" using g by simp
    show "distinct (issueIDs (fst (trackIssue now analysis st issue)))" by (rule d')
    fix id assume "id \<in> insert ?new (set (issueIDs (fst st)))"
    then show "(\<exists>c' \<in> S. \<exists>n. id = newIssueID g c' (int n)) \<or>
        (\<exists>n < Suc (length (ActiveIssues (fst st))). id = newIssueID g (CallID analysis) (int n))"
      using origin g by (auto simp: less_Suc_eq)
  qed
qed

lemma trackIssues_tracking:
  assumes "tracking g (CallID analysis) S (fst st)" and "CallID analysis \<notin> S"
  shows "tracking g (CallID analysis) S (fst (foldl (trackIssue now analysis) st issues))"
  using assms by (induction issues arbitrary: st) (simp_all add: trackIssue_tracking)

lemma mset_map_partition:
  "mset (map f (filter P xs)) + mset (map f (filter (\<lambda>x. \<not> P x) xs)) = mset (map f xs)"
  by (induction xs) simp_all

lemma processIssues_lists:
  "(ActiveIssues (fst (processIssues now profile analysis)),
    ResolvedIssues (fst (processIssues now profile analysis)),
    snd (processIssues now profile analysis)) =
   (let (profile1, mentioned) = foldl (trackIssue now analysis) (profile, {}) (Issues analysis)
    in if PromptResolution (Intent analysis)
       then (filter (\<lambda>t. IssueID t \<in> mentioned) (ActiveIssues profile1),
             ResolvedIssues profile @
               map (\<lambda>t. t \<lparr> Status := ''resolved'', ResolvedAt := Some now \<rparr>)
                 (filter (\<lambda>t. IssueID t \<notin> mentioned) (ActiveIssues profile1)),
             int (length (filter (\<lambda>t. IssueID t \<notin> mentioned) (ActiveIssues profile1))))
       else (ActiveIssues profile1, ResolvedIssues profile, 0))"
  by (simp add: processIssues_eq Let_def split_def)

lemma processIssues_ids:
  "mset (issueIDs (fst (processIssues now profile analysis))) =
     mset (issueIDs (fst (foldl (trackIssue now analysis) (profile, {}) (Issues analysis))))"
proof -
  let ?st = "foldl (trackIssue now analysis) (profile, {}) (Issues analysis)"
  show ?thesis
  proof (cases "PromptResolution (Intent analysis)")
    case True
    with processIssues_lists[of now profile analysis]
    have a: "ActiveIssues (fst (processIssues now profile analysis)) =
          filter (\<lambda>t. IssueID t \<in> snd ?st) (ActiveIssues (fst ?st))"
      and r: "ResolvedIssues (fst (processIssues now profile analysis)) =
          ResolvedIssues profile @
               map (\<lambda>t. t \<lparr> Status := ''resolved'', ResolvedAt := Some now \<rparr>)
                 (filter (\<lambda>t. IssueID t \<notin> snd ?st) (ActiveIssues (fst ?st)))"
      by (simp_all add: Let_def split_def)
    have m: "map IssueID (map (\<lambda>t. t \<lparr> Status := ''resolved'', ResolvedAt := Some now \<rparr>) xs) =
        map IssueID xs" for xs
      by simp
    show ?thesis
      unfolding issueIDs_def a r map_append m mset_append
      using mset_map_partition[of IssueID "\<lambda>t. IssueID t \<in> snd ?st" "ActiveIssues (fst ?st)"]
      by (simp add: ac_simps)
  next
    case False
    with processIssues_lists[of now profile analysis]
    show ?thesis by (simp add: Let_def split_def issueIDs_def)
  qed
qed

lemma processIssues_tracked:
  assumes "tracked g S profile" and "CallID analysis \<notin> S"
  shows "tracked g (insert (CallID analysis) S) (fst (processIssues now profile analysis))"
proof -
  let ?p1 = "fst (foldl (trackIssue now analysis) (profile, {}) (Issues analysis))"
  have "tracking g (CallID analysis) S (fst (profile, {}::string set))"
    using assms(1) by (simp add: tracked_tracking)
  from trackIssues_tracking[OF this assms(2)]
  have "tracked g (insert (CallID analysis) S) ?p1" by (rule tracking_tracked)
  moreover have "distinct (issueIDs (fst (processIssues now profile analysis))) = distinct (issueIDs ?p1)"
    using processIssues_ids by (rule mset_eq_imp_distinct_iff)
  moreover have "set (issueIDs (fst (processIssues now profile analysis))) = set (issueIDs ?p1)"
    using processIssues_ids by (rule mset_eq_setD)
  ultimately show ?thesis unfolding tracked_def by simp
qed

lemma isSameIssue_iff: "isSameIssue t issue \<longleftrightarrow> Bucket t = iBucket issue"
  by (simp add: isSameIssue_def)

lemma filter_update_out:
  "k < length xs \<Longrightarrow> \<not> P (xs ! k) \<Longrightarrow> \<not> P y \<Longrightarrow> filter P (xs [k := y]) = filter P xs"
proof (induction xs arbitrary: k)
  case Nil
  then show ?case by simp
next
  case (Cons x xs)
  then show ?case by (cases k) simp_all
qed

lemma issuePairs_buckets: "map snd (issuePairs p) = map Bucket (ActiveIssues p)"
  and issuePairs_ids: "map fst (issuePairs p) = map IssueID (ActiveIssues p)"
  by (simp_all add: issuePairs_def comp_def)

lemma distinct_snd_unique:
  assumes "distinct (map snd ps)" "(a, b) \<in> set ps" "(a', b) \<in> set ps"
  shows "a = a'"
proof -
  from assms(1) have "inj_on snd (set ps)" by (simp add: distinct_map)
  from inj_onD[OF this _ assms(2,3)] show ?thesis by simp
qed

text \<open>
  One step of the tracking loop, for a profile with at most one active issue per
  category: the categories stay distinct, the list of (identifier, category) pairs of the
  active issues is only extended, issues of categories outside \<open>C\<close> are left as they
  are when the issue of the call has its category in \<open>C\<close>, and the identifier of the
  active issue of the call's category is added to the mentioned ones.
\<close>

lemma trackIssue_step:
  assumes d: "distinct (map Bucket (ActiveIssues (fst st)))"
    and c: "iBucket issue \<in> C"
  shows "distinct (map Bucket (ActiveIssues (fst (trackIssue now analysis st issue))))"
    and "\<exists>new. issuePairs (fst (trackIssue now analysis st issue)) = issuePairs (fst st) @ new"
    and "filter (\<lambda>t. Bucket t \<notin> C) (ActiveIssues (fst (trackIssue now analysis st issue))) =
           filter (\<lambda>t. Bucket t \<notin> C) (ActiveIssues (fst st))"
    and "snd (trackIssue now analysis st issue) =
           snd st \<union> {i. (i, iBucket issue) \<in> set (issuePairs (fst (trackIssue now analysis st issue)))}"
    and "\<exists>i. (i, iBucket issue) \<in> set (issuePairs (fst (trackIssue now analysis st issue)))"
proof -
  let ?xs = "ActiveIssues (fst st)"
  let ?st' = "trackIssue now analysis st issue"
  have "distinct (map Bucket (ActiveIssues (fst ?st'))) \<and>
    (\<exists>new. issuePairs (fst ?st') = issuePairs (fst st) @ new) \<and>
    filter (\<lambda>t. Bucket t \<notin> C) (ActiveIssues (fst ?st')) = filter (\<lambda>t. Bucket t \<notin> C) ?xs \<and>
    snd ?st' = snd st \<union> {i. (i, iBucket issue) \<in> set (issuePairs (fst ?st'))} \<and>
    (\<exists>i. (i, iBucket issue) \<in> set (issuePairs (fst ?st')))"
  proof (cases rule: trackIssue_cases[of st issue now analysis])
    case (matched k)
    from matched(4) obtain t' where
      a: "ActiveIssues (fst ?st') = ?xs [k := t']"
      and i: "IssueID t' = IssueID (?xs ! k)" and b: "Bucket t' = Bucket (?xs ! k)" by blast
    have bk: "Bucket (?xs ! k) = iBucket issue" using matched(2) by (simp add: isSameIssue_iff)
    have buckets: "map Bucket (?xs [k := t']) = map Bucket ?xs"
      using matched(1) b by (simp add: map_update_same)
    have pairs: "issuePairs (fst ?st') = issuePairs (fst st)"
      unfolding issuePairs_def a using matched(1) i b by (simp add: map_update_same)
    have mem: "(IssueID (?xs ! k), iBucket issue) \<in> set (issuePairs (fst st))"
      unfolding issuePairs_def using matched(1) bk by force
    have only: "{i. (i, iBucket issue) \<in> set (issuePairs (fst st))} = {IssueID (?xs ! k)}"
    proof (intro set_eqI iffI)
      fix i assume "i \<in> {i. (i, iBucket issue) \<in> set (issuePairs (fst st))}"
      then have "(i, iBucket issue) \<in> set (issuePairs (fst st))" by (rule CollectD)
      from distinct_snd_unique[OF _ this mem] d
      have "i = IssueID (?xs ! k)" by (simp add: issuePairs_buckets)
      then show "i \<in> {IssueID (?xs ! k)}" by simp
    next
      fix i assume "i \<in> {IssueID (?xs ! k)}"
      then have "i = IssueID (?xs ! k)" by (rule singletonD)
      with mem show "i \<in> {i. (i, iBucket issue) \<in> set (issuePairs (fst st))}" by simp
    qed
    have f: "filter (\<lambda>t. Bucket t \<notin> C) (?xs [k := t']) = filter (\<lambda>t. Bucket t \<notin> C) ?xs"
      using matched(1) c bk b by (intro filter_update_out) simp_all
    show ?thesis
      unfolding pairs only
      using d buckets f matched(5) mem by (auto simp: a)
  next
    case created
    from created(2) obtain t' where
      a: "ActiveIssues (fst ?st') = ?xs @ [t']"
      and i: "IssueID t' = newIssueID (GluserID (fst st)) (CallID analysis) (int (length ?xs))"
      and b: "Bucket t' = iBucket issue" by blast
    have none: "\<forall>t \<in> set ?xs. Bucket t \<noteq> iBucket issue"
      using created(1) by (simp add: isSameIssue_iff)
    have pairs: "issuePairs (fst ?st') = issuePairs (fst st) @ [(IssueID t', iBucket issue)]"
      unfolding issuePairs_def a by (simp add: b)
    have only: "{i. (i, iBucket issue) \<in> set (issuePairs (fst st) @ [(IssueID t', iBucket issue)])} =
        {IssueID t'}"
      using none unfolding issuePairs_def by auto
    show ?thesis
      unfolding pairs only
      using d none b c i created(3) by (auto simp: a)
  qed
  note all = this
  show "distinct (map Bucket (ActiveIssues (fst ?st')))"
    using all by (elim conjE)
  show "\<exists>new. issuePairs (fst ?st') = issuePairs (fst st) @ new"
    using all by (elim conjE)
  show "filter (\<lambda>t. Bucket t \<notin> C) (ActiveIssues (fst ?st')) = filter (\<lambda>t. Bucket t \<notin> C) ?xs"
    using all by (elim conjE)
  show "snd ?st' = snd st \<union> {i. (i, iBucket issue) \<in> set (issuePairs (fst ?st'))}"
    using all by (elim conjE)
  show "\<exists>i. (i, iBucket issue) \<in> set (issuePairs (fst ?st'))"
    using all by (elim conjE)
qed

lemma trackIssues_fold:
  assumes "distinct (map Bucket (ActiveIssues (fst st)))"
    and "iBucket ` set issues \<subseteq> C"
  shows "distinct (map Bucket (ActiveIssues (fst (foldl (trackIssue now analysis) st issues)))) \<and>
         (\<exists>new. issuePairs (fst (foldl (trackIssue now analysis) st issues)) =
                   issuePairs (fst st) @ new) \<and>
         filter (\<lambda>t. Bucket t \<notin> C) (ActiveIssues (fst (foldl (trackIssue now analysis) st issues))) =
           filter (\<lambda>t. Bucket t \<notin> C) (ActiveIssues (fst st)) \<and>
         snd (foldl (trackIssue now analysis) st issues) =
           snd st \<union> {i. \<exists>b \<in> iBucket ` set issues.
                        (i, b) \<in> set (issuePairs (fst (foldl (trackIssue now analysis) st issues)))}"
  using assms
proof (induction issues arbitrary: st)
  case Nil
  then show ?case by simp
next
  case (Cons issue issues)
  let ?st1 = "trackIssue now analysis st issue"
  let ?st2 = "foldl (trackIssue now analysis) ?st1 issues"
  let ?b = "iBucket issue"
  from Cons.prems have c: "?b \<in> C" and cs: "iBucket ` set issues \<subseteq> C" by simp_all
  note step = trackIssue_step[OF Cons.prems(1) c, of now analysis]
  note ih = Cons.IH[OF step(1) cs]
  from step(2) obtain new1 where n1: "issuePairs (fst ?st1) = issuePairs (fst st) @ new1" by blast
  from ih obtain new2 where n2: "issuePairs (fst ?st2) = issuePairs (fst ?st1) @ new2" by blast
  from ih have d2: "distinct (map snd (issuePairs (fst ?st2)))" by (simp add: issuePairs_buckets)
  from step(5) obtain i0 where i0: "(i0, ?b) \<in> set (issuePairs (fst ?st1))" by blast
  then have i0': "(i0, ?b) \<in> set (issuePairs (fst ?st2))" unfolding n2 by simp
  have same: "{i. (i, ?b) \<in> set (issuePairs (fst ?st1))} = {i. (i, ?b) \<in> set (issuePairs (fst ?st2))}"
  proof (intro set_eqI iffI CollectI; drule CollectD)
    fix i assume "(i, ?b) \<in> set (issuePairs (fst ?st1))"
    then show "(i, ?b) \<in> set (issuePairs (fst ?st2))" unfolding n2 by simp
  next
    fix i assume "(i, ?b) \<in> set (issuePairs (fst ?st2))"
    from distinct_snd_unique[OF d2 this i0'] i0
    show "(i, ?b) \<in> set (issuePairs (fst ?st1))" by simp
  qed
  have m: "snd ?st2 = snd st \<union> {i. \<exists>b \<in> iBucket ` set (issue # issues). (i, b) \<in> set (issuePairs (fst ?st2))}"
  proof -
    from ih have "snd ?st2 = snd ?st1 \<union> {i. \<exists>b \<in> iBucket ` set issues. (i, b) \<in> set (issuePairs (fst ?st2))}"
      by blast
    also have "snd ?st1 = snd st \<union> {i. (i, ?b) \<in> set (issuePairs (fst ?st2))}"
      unfolding step(4) same ..
    finally show ?thesis by auto
  qed
  have p: "\<exists>new. issuePairs (fst ?st2) = issuePairs (fst st) @ new"
    unfolding n2 n1 by simp
  have f: "filter (\<lambda>t. Bucket t \<notin> C) (ActiveIssues (fst ?st2)) =
      filter (\<lambda>t. Bucket t \<notin> C) (ActiveIssues (fst st))"
    using ih step(3) by simp
  from ih m p f show ?case by simp
qed

text \<open>
  With issue identifiers unique among the active issues, an active issue is among the
  mentioned ones exactly when an issue of the call is the same issue.
\<close>

lemma mentioned_iff:
  assumes "distinct (map Bucket (ActiveIssues profile))"
    and ids: "distinct (map IssueID (ActiveIssues (fst (foldl (trackIssue now analysis) (profile, {}) issues))))"
    and t: "t \<in> set (ActiveIssues (fst (foldl (trackIssue now analysis) (profile, {}) issues)))"
  shows "IssueID t \<in> snd (foldl (trackIssue now analysis) (profile, {}) issues) \<longleftrightarrow>
         list_ex (isSameIssue t) issues"
proof -
  let ?st = "foldl (trackIssue now analysis) (profile, {}) issues"
  from trackIssues_fold[of "(profile, {})" issues "iBucket ` set issues" now analysis] assms(1)
  have m: "snd ?st = {i. \<exists>b \<in> iBucket ` set issues. (i, b) \<in> set (issuePairs (fst ?st))}"
    by simp
  have inj: "inj_on IssueID (set (ActiveIssues (fst ?st)))"
    using ids by (simp add: distinct_map)
  show ?thesis
  proof
    assume "IssueID t \<in> snd ?st"
    then obtain b where b: "b \<in> iBucket ` set issues" "(IssueID t, b) \<in> set (issuePairs (fst ?st))"
      unfolding m by blast
    then obtain t' where t': "t' \<in> set (ActiveIssues (fst ?st))" "IssueID t' = IssueID t" "Bucket t' = b"
      unfolding issuePairs_def by auto
    from inj_onD[OF inj t'(2) t'(1) t] t'(3) b(1)
    show "list_ex (isSameIssue t) issues" by (auto simp: list_ex_iff isSameIssue_iff)
  next
    assume "list_ex (isSameIssue t) issues"
    then have "Bucket t \<in> iBucket ` set issues" by (auto simp: list_ex_iff isSameIssue_iff)
    moreover have "(IssueID t, Bucket t) \<in> set (issuePairs (fst ?st))"
      unfolding issuePairs_def using t by auto
    ultimately show "IssueID t \<in> snd ?st" unfolding m by blast
  qed
qed

lemma trackIssues_prefix:
  assumes "distinct (map Bucket (ActiveIssues profile))"
  shows "map IssueID (ActiveIssues profile) =
     take (length (ActiveIssues profile))
       (map IssueID (ActiveIssues (fst (foldl (trackIssue now analysis) (profile, {}) issues))))"
proof -
  from trackIssues_fold[of "(profile, {})" issues "iBucket ` set issues" now analysis] assms
  obtain new where "issuePairs (fst (foldl (trackIssue now analysis) (profile, {}) issues)) =
      issuePairs profile @ new" by auto
  then have "map fst (issuePairs (fst (foldl (trackIssue now analysis) (profile, {}) issues))) =
      map fst (issuePairs profile) @ map fst new" by simp
  then show ?thesis by (simp add: issuePairs_ids)
qed

text \<open>
  The resolution policy, for a profile with at most one active issue per category and
  with issue identifiers that are unique among the active issues once the issues of the
  call are tracked: if the resolution signal of the call is true, the active issues
  that remain are exactly those that an issue of the call matches, the issues moved to
  the resolved list are exactly the previously active issues that no issue of the call
  matches, marked resolved with the resolution time, and their number is returned; so a
  resolution call without issues resolves every active issue. If the signal is false
  nothing is resolved and the count is 0. In both cases tracking keeps every previously
  active issue in the active list.
\<close>

lemma resolution_policy:
  assumes "distinct (map Bucket (ActiveIssues profile))"
    and "distinct (map IssueID
           (ActiveIssues (fst (foldl (trackIssue now analysis) (profile, {}) (Issues analysis)))))"
  shows "let afterTracking =
               ActiveIssues (fst (foldl (trackIssue now analysis) (profile, {}) (Issues analysis)));
             (profile', resolvedCount) = processIssues now profile analysis;
             unmentioned =
               filter (\<lambda>t. \<not> list_ex (isSameIssue t) (Issues analysis)) (ActiveIssues profile)
         in (if PromptResolution (Intent analysis)
             then ActiveIssues profile' =
                    filter (\<lambda>t. list_ex (isSameIssue t) (Issues analysis)) afterTracking \<and>
                  ResolvedIssues profile' = ResolvedIssues profile @
                    map (\<lambda>t. t \<lparr> Status := ''resolved'', ResolvedAt := Some now \<rparr>) unmentioned \<and>
                  resolvedCount = int (length unmentioned) \<and>
                  (Issues analysis = [] \<longrightarrow>
                     ActiveIssues profile' = [] \<and> unmentioned = ActiveIssues profile)
             else ActiveIssues profile' = afterTracking \<and>
                  ResolvedIssues profile' = ResolvedIssues profile \<and> resolvedCount = 0) \<and>
            map IssueID (ActiveIssues profile) =
              take (length (ActiveIssues profile)) (map IssueID afterTracking)"
proof -
  let ?st = "foldl (trackIssue now analysis) (profile, {}) (Issues analysis)"
  let ?xs = "ActiveIssues (fst ?st)"
  let ?C = "iBucket ` set (Issues analysis)"
  have m: "IssueID t \<in> snd ?st \<longleftrightarrow> list_ex (isSameIssue t) (Issues analysis)"
    if "t \<in> set ?xs" for t
    using assms that by (rule mentioned_iff)
  have keep: "filter (\<lambda>t. IssueID t \<in> snd ?st) ?xs =
      filter (\<lambda>t. list_ex (isSameIssue t) (Issues analysis)) ?xs"
    by (rule filter_cong[OF refl]) (rule m)
  have same: "list_ex (isSameIssue t) (Issues analysis) \<longleftrightarrow> Bucket t \<in> ?C" for t
    by (auto simp: list_ex_iff isSameIssue_iff)
  have "filter (\<lambda>t. IssueID t \<notin> snd ?st) ?xs =
      filter (\<lambda>t. \<not> list_ex (isSameIssue t) (Issues analysis)) ?xs"
    by (rule filter_cong[OF refl]) (simp add: m)
  also have "\<dots> = filter (\<lambda>t. Bucket t \<notin> ?C) ?xs" by (simp add: same)
  also have "\<dots> = filter (\<lambda>t. Bucket t \<notin> ?C) (ActiveIssues profile)"
    using trackIssues_fold[of "(profile, {})" "Issues analysis" ?C now analysis] assms(1) by simp
  also have "\<dots> = filter (\<lambda>t. \<not> list_ex (isSameIssue t) (Issues analysis)) (ActiveIssues profile)"
    by (simp add: same)
  finally have move: "filter (\<lambda>t. IssueID t \<notin> snd ?st) ?xs =
      filter (\<lambda>t. \<not> list_ex (isSameIssue t) (Issues analysis)) (ActiveIssues profile)" .
  have prefix: "map IssueID (ActiveIssues profile) =
      take (length (ActiveIssues profile)) (map IssueID ?xs)"
    using assms(1) by (rule trackIssues_prefix)
  show ?thesis
  proof (cases "PromptResolution (Intent analysis)")
    case True
    with processIssues_lists[of now profile analysis]
    have "ActiveIssues (fst (processIssues now profile analysis)) =
          filter (\<lambda>t. list_ex (isSameIssue t) (Issues analysis)) ?xs"
      and "ResolvedIssues (fst (processIssues now profile analysis)) =
          ResolvedIssues profile @ map (\<lambda>t. t \<lparr> Status := ''resolved'', ResolvedAt := Some now \<rparr>)
            (filter (\<lambda>t. \<not> list_ex (isSameIssue t) (Issues analysis)) (ActiveIssues profile))"
      and "snd (processIssues now profile analysis) =
          int (length (filter (\<lambda>t. \<not> list_ex (isSameIssue t) (Issues analysis)) (ActiveIssues profile)))"
      by (simp_all add: Let_def split_def keep move)
    with True prefix show ?thesis
      by (simp add: Let_def split_def)
  next
    case False
    with processIssues_lists[of now profile analysis]
    have "ActiveIssues (fst (processIssues now profile analysis)) = ?xs"
      and "ResolvedIssues (fst (processIssues now profile analysis)) = ResolvedIssues profile"
      and "snd (processIssues now profile analysis) = 0"
      by (simp_all add: Let_def split_def)
    with False prefix show ?thesis
      by (simp add: Let_def split_def)
  qed
qed

lemma resolving_tracked:
  "ActiveIssues (fst (foldl (trackIssue 5 resolvingCall) (twoIssueProfile, {}) (Issues resolvingCall))) =
     [(exampleTracked ''g-c0-0'' ''Billing'' 1)
        \<lparr> LastMentionedAt := 5, MentionCount := 2, CallIDs := [''c0'', ''c2''], IsRecurring := True \<rparr>,
      exampleTracked ''g-c0-1'' ''Leads'' 1]"
  by (simp add: resolvingCall_def twoIssueProfile_def exampleAnalysis_def exampleIssue_def
      exampleTracked_def newProfile_def trackIssue_def isSameIssue_def severityLevel_def Let_def)

lemma resolution_policy_example:
  "distinct (map Bucket (ActiveIssues twoIssueProfile)) \<and>
   distinct (map IssueID (ActiveIssues
     (fst (foldl (trackIssue 5 resolvingCall) (twoIssueProfile, {}) (Issues resolvingCall))))) \<and>
   PromptResolution (Intent resolvingCall) \<and>
   map IssueID (ActiveIssues (fst (processIssues 5 twoIssueProfile resolvingCall))) = [''g-c0-0''] \<and>
   ResolvedIssues (fst (processIssues 5 twoIssueProfile resolvingCall)) =
     [(exampleTracked ''g-c0-1'' ''Leads'' 1) \<lparr> Status := ''resolved'', ResolvedAt := Some 5 \<rparr>] \<and>
   snd (processIssues 5 twoIssueProfile resolvingCall) = 1 \<and>
   distinct (map IssueID (ActiveIssues
     (fst (foldl (trackIssue 6 closingCall) (twoIssueProfile, {}) (Issues closingCall))))) \<and>
   PromptResolution (Intent closingCall) \<and> Issues closingCall = [] \<and>
   ActiveIssues (fst (processIssues 6 twoIssueProfile closingCall)) = [] \<and>
   map IssueID (ResolvedIssues (fst (processIssues 6 twoIssueProfile closingCall))) =
     [''g-c0-0'', ''g-c0-1''] \<and>
   snd (processIssues 6 twoIssueProfile closingCall) = 2"
proof -
  have h1: "distinct (map Bucket (ActiveIssues twoIssueProfile))"
    by (simp add: twoIssueProfile_def exampleTracked_def)
  have h2: "distinct (map IssueID (ActiveIssues
     (fst (foldl (trackIssue 5 resolvingCall) (twoIssueProfile, {}) (Issues resolvingCall)))))"
    unfolding resolving_tracked by (simp add: exampleTracked_def)
  have h3: "PromptResolution (Intent resolvingCall)"
    by (simp add: resolvingCall_def exampleAnalysis_def)
  have issues: "Issues resolvingCall = [exampleIssue ''double charge'' ''Billing'' ''low'']"
    by (simp add: resolvingCall_def exampleAnalysis_def)
  have old: "ActiveIssues twoIssueProfile =
      [exampleTracked ''g-c0-0'' ''Billing'' 1, exampleTracked ''g-c0-1'' ''Leads'' 1]"
    "ResolvedIssues twoIssueProfile = []"
    by (simp_all add: twoIssueProfile_def newProfile_def)
  from resolution_policy[OF h1 h2] h3
  have "ActiveIssues (fst (processIssues 5 twoIssueProfile resolvingCall)) =
      filter (\<lambda>t. list_ex (isSameIssue t) (Issues resolvingCall))
        (ActiveIssues (fst (foldl (trackIssue 5 resolvingCall) (twoIssueProfile, {}) (Issues resolvingCall))))"
    and "ResolvedIssues (fst (processIssues 5 twoIssueProfile resolvingCall)) =
      ResolvedIssues twoIssueProfile @ map (\<lambda>t. t \<lparr> Status := ''resolved'', ResolvedAt := Some 5 \<rparr>)
        (filter (\<lambda>t. \<not> list_ex (isSameIssue t) (Issues resolvingCall)) (ActiveIssues twoIssueProfile))"
    and "snd (processIssues 5 twoIssueProfile resolvingCall) =
      int (length (filter (\<lambda>t. \<not> list_ex (isSameIssue t) (Issues resolvingCall))
        (ActiveIssues twoIssueProfile)))"
    by (simp_all add: Let_def split_def)
  then have r1: "map IssueID (ActiveIssues (fst (processIssues 5 twoIssueProfile resolvingCall))) = [''g-c0-0'']"
    and r2: "ResolvedIssues (fst (processIssues 5 twoIssueProfile resolvingCall)) =
     [(exampleTracked ''g-c0-1'' ''Leads'' 1) \<lparr> Status := ''resolved'', ResolvedAt := Some 5 \<rparr>]"
    and r3: "snd (processIssues 5 twoIssueProfile resolvingCall) = 1"
    unfolding resolving_tracked unfolding old issues
    by (simp_all add: exampleTracked_def exampleIssue_def isSameIssue_def)
  have none: "Issues closingCall = []" and k3: "PromptResolution (Intent closingCall)"
    by (simp_all add: closingCall_def exampleAnalysis_def)
  have k2: "distinct (map IssueID (ActiveIssues
     (fst (foldl (trackIssue 6 closingCall) (twoIssueProfile, {}) (Issues closingCall)))))"
    unfolding none by (simp add: old exampleTracked_def)
  from resolution_policy[OF h1 k2] k3 none
  have "ActiveIssues (fst (processIssues 6 twoIssueProfile closingCall)) = []"
    and "ResolvedIssues (fst (processIssues 6 twoIssueProfile closingCall)) =
      ResolvedIssues twoIssueProfile @ map (\<lambda>t. t \<lparr> Status := ''resolved'', ResolvedAt := Some 6 \<rparr>)
        (ActiveIssues twoIssueProfile)"
    and "snd (processIssues 6 twoIssueProfile closingCall) = int (length (ActiveIssues twoIssueProfile))"
    by (simp_all add: Let_def split_def)
  then have s1: "ActiveIssues (fst (processIssues 6 twoIssueProfile closingCall)) = []"
    and s2: "map IssueID (ResolvedIssues (fst (processIssues 6 twoIssueProfile closingCall))) =
     [''g-c0-0'', ''g-c0-1'']"
    and s3: "snd (processIssues 6 twoIssueProfile closingCall) = 2"
    unfolding old by (simp_all add: exampleTracked_def)
  from h1 h2 h3 r1 r2 r3 k2 k3 none s1 s2 s3 show ?thesis by blast
qed

lemma collidingProfile_issues:
  "ActiveIssues collidingProfile =
     [\<lparr> IssueID = ''g--1'', Problem = ''problem'', Bucket = ''Leads'', Severity = ''low'',
        ActionRequired = '''', Status = ''open'', FirstReportedAt = 2, LastMentionedAt = 2,
        ResolvedAt = None, MentionCount = 1, CallIDs = [''''], IsRecurring = False \<rparr>]"
  "map (\<lambda>t. (IssueID t, Bucket t)) (ResolvedIssues collidingProfile) = [(''g--0'', ''Billing'')]"
  "GluserID collidingProfile = ''g''"
  by (simp_all add: collidingProfile_def processIssues_def trackIssue_def unnamedCall_def
      exampleAnalysis_def exampleIssue_def newProfile_def isSameIssue_def severityLevel_def
      newIssueID_def show_int_def show_nat.simps Let_def)

text \<open>
  C7. The identifier of a new issue is made of the account, the call identifier and the
  number of active issues, and the resolution step finds the issues mentioned in the
  call by their identifier. Take three calls without a call identifier for a new
  account: one with a Billing issue, one with a Leads issue and the resolution signal,
  which resolves the Billing issue and leaves the Leads issue active under the
  identifier \<open>g--1\<close>, and one with a Catalog issue and the resolution signal. The
  Catalog issue gets the identifier \<open>g--1\<close> as well, so the Leads issue, which no issue
  of the third call matches, stays active, and no issue is resolved or counted.
\<close>

theorem unmentioned_issue_stays_active:
  "map (\<lambda>t. (IssueID t, Bucket t)) (ActiveIssues collidingProfile) = [(''g--1'', ''Leads'')] \<and>
   map (\<lambda>t. (IssueID t, Bucket t)) (ResolvedIssues collidingProfile) = [(''g--0'', ''Billing'')] \<and>
   PromptResolution (Intent (unnamedCall ''Catalog'' True)) \<and>
   map iBucket (Issues (unnamedCall ''Catalog'' True)) = [''Catalog''] \<and>
   map (\<lambda>t. (IssueID t, Bucket t, Status t, ResolvedAt t))
     (ActiveIssues (fst (processIssues 3 collidingProfile (unnamedCall ''Catalog'' True)))) =
     [(''g--1'', ''Leads'', ''open'', None), (''g--1'', ''Catalog'', ''open'', None)] \<and>
   map (\<lambda>t. (IssueID t, Bucket t))
     (ResolvedIssues (fst (processIssues 3 collidingProfile (unnamedCall ''Catalog'' True)))) =
     [(''g--0'', ''Billing'')] \<and>
   snd (processIssues 3 collidingProfile (unnamedCall ''Catalog'' True)) = 0"
proof -
  have call: "PromptResolution (Intent (unnamedCall ''Catalog'' True))"
    "map iBucket (Issues (unnamedCall ''Catalog'' True)) = [''Catalog'']"
    by (simp_all add: unnamedCall_def exampleAnalysis_def exampleIssue_def)
  have third:
    "map (\<lambda>t. (IssueID t, Bucket t, Status t, ResolvedAt t))
       (ActiveIssues (fst (processIssues 3 collidingProfile (unnamedCall ''Catalog'' True)))) =
       [(''g--1'', ''Leads'', ''open'', None), (''g--1'', ''Catalog'', ''open'', None)]"
    "ResolvedIssues (fst (processIssues 3 collidingProfile (unnamedCall ''Catalog'' True))) =
       ResolvedIssues collidingProfile"
    "snd (processIssues 3 collidingProfile (unnamedCall ''Catalog'' True)) = 0"
    by (simp_all add: processIssues_def trackIssue_def collidingProfile_issues
      unnamedCall_def exampleAnalysis_def exampleIssue_def
      isSameIssue_def newIssueID_def show_int_def show_nat.simps Let_def)
  from collidingProfile_issues call third show ?thesis by simp
qed

text \<open>
  C1. A call that reports two issues of the same category for a new account leaves one
  tracked issue with mention count 2, the call identifier twice in its list of calls and
  the recurring flag set, where the same call with the first of the two issues only
  leaves mention count 1, one call identifier and the flag off: the second issue of the
  category is matched against the issue that the first one has just created.
\<close>

theorem duplicate_category_counted_twice:
  "map (\<lambda>t. (Bucket t, MentionCount t, CallIDs t, IsRecurring t))
     (ActiveIssues (fst (processIssues 1 (newProfile ''g'' 0) duplicateCall))) =
     [(''Billing'', 2, [''c1'', ''c1''], True)] \<and>
   map (\<lambda>t. (Bucket t, MentionCount t, CallIDs t, IsRecurring t))
     (ActiveIssues (fst (processIssues 1 (newProfile ''g'' 0) billingCall))) =
     [(''Billing'', 1, [''c1''], False)]"
  by (simp add: processIssues_def trackIssue_def duplicateCall_def billingCall_def
      exampleAnalysis_def exampleIssue_def newProfile_def isSameIssue_def severityLevel_def
      Let_def)

section \<open>Properties of the issue statistics\<close>

lemma increment_lookup:
  "map_of (increment k m) k' =
     (if k' = k then Some (case map_of m k of None \<Rightarrow> 1 | Some v \<Rightarrow> v + 1) else map_of m k')"
  by (induction m) auto

lemma increment_map_fst:
  "map fst (increment k m) = (if k \<in> set (map fst m) then map fst m else map fst m @ [k])"
proof (induction m)
  case Nil
  then show ?case by simp
next
  case (Cons e m)
  obtain k' v where e: "e = (k', v)" by (cases e)
  show ?case
  proof (cases "k' = k")
    case True
    with e show ?thesis by simp
  next
    case False
    with e Cons show ?thesis by simp
  qed
qed

lemma increment_keys:
  "set (map fst (increment k m)) = insert k (set (map fst m))"
  unfolding increment_map_fst by auto

lemma increment_distinct:
  "distinct (map fst m) \<Longrightarrow> distinct (map fst (increment k m))"
  unfolding increment_map_fst by simp

lemma count_keys:
  assumes "distinct (map fst m)"
  shows "distinct (map fst (foldl (\<lambda>m k. increment k m) m ks)) \<and>
         set (map fst (foldl (\<lambda>m k. increment k m) m ks)) = set (map fst m) \<union> set ks \<and>
         (\<forall>k. map_of (foldl (\<lambda>m k. increment k m) m ks) k =
            (if k \<in> set ks
             then Some ((case map_of m k of None \<Rightarrow> 0 | Some v \<Rightarrow> v) + int (count_list ks k))
             else map_of m k))"
  using assms
proof (induction ks arbitrary: m)
  case Nil
  then show ?case by simp
next
  case (Cons k ks)
  have d: "distinct (map fst (increment k m))" using Cons.prems by (rule increment_distinct)
  note ih = Cons.IH[OF d]
  show ?case
  proof (intro conjI allI)
    show "distinct (map fst (foldl (\<lambda>m k. increment k m) m (k # ks)))" using ih by simp
    show "set (map fst (foldl (\<lambda>m k. increment k m) m (k # ks))) = set (map fst m) \<union> set (k # ks)"
      using ih increment_keys[of k m] by auto
    fix k'
    show "map_of (foldl (\<lambda>m k. increment k m) m (k # ks)) k' =
            (if k' \<in> set (k # ks)
             then Some ((case map_of m k' of None \<Rightarrow> 0 | Some v \<Rightarrow> v) + int (count_list (k # ks) k'))
             else map_of m k')"
      using ih by (auto simp: increment_lookup split: option.splits)
  qed
qed

lemma bucketCounts_entries:
  "distinct (map fst (foldl (\<lambda>m k. increment k m) [] ks)) \<and>
   set (foldl (\<lambda>m k. increment k m) [] ks) = (\<lambda>k. (k, int (count_list ks k))) ` set ks"
proof -
  let ?m = "foldl (\<lambda>m k. increment k m) [] ks"
  from count_keys[of "[]" ks]
  have d: "distinct (map fst ?m)" and keys: "set (map fst ?m) = set ks"
    and look: "\<And>k. map_of ?m k = (if k \<in> set ks then Some (int (count_list ks k)) else None)"
    by simp_all
  have "(k, v) \<in> set ?m \<longleftrightarrow> k \<in> set ks \<and> v = int (count_list ks k)" for k v
  proof (cases "k \<in> set ks")
    case True
    then show ?thesis using map_of_eq_Some_iff[OF d, of k v] look[of k] by auto
  next
    case False
    then show ?thesis using map_of_eq_Some_iff[OF d, of k v] look[of k] by simp
  qed
  then have "set ?m = (\<lambda>k. (k, int (count_list ks k))) ` set ks" by auto
  with d show ?thesis by simp
qed

lemma count_list_filter: "count_list (map f xs) k = length (filter (\<lambda>x. f x = k) xs)"
  by (induction xs) simp_all

lemma updateIssueStats_top:
  "TopBuckets (IssueStats (updateIssueStats choices profile)) =
     take 5 (sortSlice (\<lambda>a b. bcCount a > bcCount b)
       (map (\<lambda>(bucket, count). \<lparr> bcBucket = bucket, bcCount = count \<rparr>)
          (rangeOrder choices
             (foldl (\<lambda>m k. increment k m) []
                (map Bucket (ActiveIssues profile @ ResolvedIssues profile))))))"
  by (simp add: updateIssueStats_def Let_def foldl_map)

lemma recurring_issues:
  "map (\<lambda>t. (Bucket t, MentionCount t)) (ActiveIssues recurringProfile) = [(''Billing'', 2)] \<and>
   ResolvedIssues recurringProfile = []"
  by (simp add: recurringProfile_def processIssues_def trackIssue_def followUpCall_def
      billingCall_def exampleAnalysis_def exampleIssue_def newProfile_def isSameIssue_def
      severityLevel_def Let_def)

text \<open>
  C8, as stated, fails: after two calls that mention the Billing issue of an account the
  top buckets list Billing with count 1, while the mention counts of the Billing issues
  add up to 2.
\<close>

theorem top_buckets_not_mentions:
  "TopBuckets (IssueStats (updateIssueStats [] recurringProfile)) =
     [\<lparr> bcBucket = ''Billing'', bcCount = 1 \<rparr>] \<and>
   totalMentions recurringProfile ''Billing'' = 2"
proof -
  from recurring_issues obtain t where a: "ActiveIssues recurringProfile = [t]"
    and t: "Bucket t = ''Billing''" "MentionCount t = 2"
    and r: "ResolvedIssues recurringProfile = []"
    by auto
  show ?thesis
    unfolding updateIssueStats_top totalMentions_def a r
    by (simp add: t sortSlice_def)
qed

text \<open>
  C8, as amended. For every profile and every order of iteration over the bucket map, the
  top buckets are the first five of a ranking of the categories of all tracked issues
  (active and resolved), each category once, by descending count, where the count of a
  category is the number of tracked issues in it (not the sum of their mention counts).
\<close>

theorem top_buckets_by_issue_count:
  "let top = TopBuckets (IssueStats (updateIssueStats choices profile)) in
     length top \<le> 5 \<and>
     (\<forall>entry \<in> set top.
        bcCount entry = issueCount profile (bcBucket entry) \<and> bcCount entry \<ge> 1) \<and>
     sorted_wrt (\<ge>) (map bcCount top) \<and>
     distinct (map bcBucket top) \<and>
     (\<exists>ranked.
        top = take 5 ranked \<and> sorted_wrt (\<ge>) (map bcCount ranked) \<and>
        distinct (map bcBucket ranked) \<and>
        set (map bcBucket ranked) = Bucket ` set (ActiveIssues profile @ ResolvedIssues profile) \<and>
        (\<forall>entry \<in> set ranked. bcCount entry = issueCount profile (bcBucket entry)))"
proof -
  define ks where "ks = map Bucket (ActiveIssues profile @ ResolvedIssues profile)"
  define m where "m = foldl (\<lambda>m k. increment k m) [] ks"
  define entries where
    "entries = map (\<lambda>(bucket, count). \<lparr> bcBucket = bucket, bcCount = count \<rparr>) (rangeOrder choices m)"
  define ranked where "ranked = sortSlice (\<lambda>a b. bcCount a > bcCount b) entries"
  define top where "top = TopBuckets (IssueStats (updateIssueStats choices profile))"
  have top: "top = take 5 ranked"
    unfolding top_def ranked_def entries_def m_def ks_def by (rule updateIssueStats_top)
  from bucketCounts_entries[of ks]
  have d: "distinct (map fst m)" and sm: "set m = (\<lambda>k. (k, int (count_list ks k))) ` set ks"
    unfolding m_def by simp_all
  have cnt: "int (count_list ks b) = issueCount profile b" for b
    unfolding ks_def issueCount_def by (simp only: count_list_filter)
  have buckets: "mset (map bcBucket ranked) = mset (map fst m)"
  proof -
    have "map bcBucket entries = map fst (rangeOrder choices m)"
      unfolding entries_def by (simp add: split_def comp_def)
    then have "mset (map bcBucket entries) = mset (map fst m)"
      by (simp add: rangeOrder_mset)
    moreover have "mset (map bcBucket ranked) = mset (map bcBucket entries)"
      unfolding ranked_def by (simp add: sortSlice_mset)
    ultimately show ?thesis by simp
  qed
  have r_distinct: "distinct (map bcBucket ranked)"
    using d mset_eq_imp_distinct_iff[OF buckets] by simp
  have r_keys: "set (map bcBucket ranked) = Bucket ` set (ActiveIssues profile @ ResolvedIssues profile)"
  proof -
    have "set (map bcBucket ranked) = set (map fst m)" using buckets by (rule mset_eq_setD)
    also have "\<dots> = set ks" unfolding set_map sm by force
    finally show ?thesis unfolding ks_def by (simp add: image_Un)
  qed
  have r_set: "set ranked = (\<lambda>(bucket, count). \<lparr> bcBucket = bucket, bcCount = count \<rparr>) ` set m"
    unfolding ranked_def entries_def by (simp add: sortSlice_set rangeOrder_set)
  have r_count: "bcCount entry = issueCount profile (bcBucket entry) \<and> bcCount entry \<ge> 1"
    if "entry \<in> set ranked" for entry
  proof -
    from that obtain k where k: "k \<in> set ks" and e: "entry = \<lparr> bcBucket = k, bcCount = int (count_list ks k) \<rparr>"
      unfolding r_set sm by auto
    from k have "count_list ks k \<noteq> 0" by (simp only: count_list_0_iff not_not)
    then have "count_list ks k \<ge> 1" by simp
    with e cnt[of k] show ?thesis by simp
  qed
  have r_sorted: "sorted_wrt (\<ge>) (map bcCount ranked)"
    unfolding ranked_def sorted_wrt_map by (rule sortSlice_sorted)
  have t_sub: "entry \<in> set ranked" if "entry \<in> set top" for entry
    using that unfolding top by (rule in_set_takeD)
  have c1: "length top \<le> 5" unfolding top by simp
  have c2: "\<forall>entry \<in> set top. bcCount entry = issueCount profile (bcBucket entry) \<and> bcCount entry \<ge> 1"
    using t_sub r_count by blast
  have c3: "sorted_wrt (\<ge>) (map bcCount top)"
    unfolding top take_map[symmetric] using r_sorted by (rule sorted_wrt_take)
  have c4: "distinct (map bcBucket top)"
    unfolding top take_map[symmetric] using r_distinct by (rule distinct_take)
  have c5: "\<exists>ranked.
        top = take 5 ranked \<and> sorted_wrt (\<ge>) (map bcCount ranked) \<and>
        distinct (map bcBucket ranked) \<and>
        set (map bcBucket ranked) = Bucket ` set (ActiveIssues profile @ ResolvedIssues profile) \<and>
        (\<forall>entry \<in> set ranked. bcCount entry = issueCount profile (bcBucket entry))"
    using top r_sorted r_distinct r_keys r_count by blast
  show ?thesis
    unfolding Let_def top_def[symmetric]
    using c1 c2 c3 c4 c5 by (intro conjI)
qed

theorem top_buckets_witness:
  "TopBuckets (IssueStats (updateIssueStats [] recurringProfile)) =
     [\<lparr> bcBucket = ''Billing'', bcCount = 1 \<rparr>] \<and>
   issueCount recurringProfile ''Billing'' = 1"
proof -
  from recurring_issues obtain t where a: "ActiveIssues recurringProfile = [t]"
    and t: "Bucket t = ''Billing''" and r: "ResolvedIssues recurringProfile = []"
    by auto
  have top: "TopBuckets (IssueStats (updateIssueStats [] recurringProfile)) =
     [\<lparr> bcBucket = ''Billing'', bcCount = 1 \<rparr>]"
    unfolding updateIssueStats_top a r by (simp add: t sortSlice_def)
  from top_buckets_by_issue_count[of "[]" recurringProfile]
  have "issueCount recurringProfile ''Billing'' = 1"
    unfolding Let_def top by simp
  with top show ?thesis by blast
qed

section \<open>Properties of the ProfileReconciler\<close>

lemma updateTrends_fields [simp]:
  "GluserID (updateTrends fmt p a) = GluserID p"
  "ActiveIssues (updateTrends fmt p a) = ActiveIssues p"
  "ResolvedIssues (updateTrends fmt p a) = ResolvedIssues p"
  "CallHistory (updateTrends fmt p a) = CallHistory p"
  "TotalCalls (updateTrends fmt p a) = TotalCalls p"
  "CreatedAt (updateTrends fmt p a) = CreatedAt p"
  by (simp_all add: updateTrends_def Let_def split del: if_split cong: if_cong)

lemma calculateCurrentStatus_fields [simp]:
  "GluserID (calculateCurrentStatus p a) = GluserID p"
  "ActiveIssues (calculateCurrentStatus p a) = ActiveIssues p"
  "ResolvedIssues (calculateCurrentStatus p a) = ResolvedIssues p"
  "CallHistory (calculateCurrentStatus p a) = CallHistory p"
  "TotalCalls (calculateCurrentStatus p a) = TotalCalls p"
  "CreatedAt (calculateCurrentStatus p a) = CreatedAt p"
  by (simp_all add: calculateCurrentStatus_def Let_def split del: if_split cong: if_cong)

lemma updateIssueStats_fields [simp]:
  "GluserID (updateIssueStats choices p) = GluserID p"
  "ActiveIssues (updateIssueStats choices p) = ActiveIssues p"
  "ResolvedIssues (updateIssueStats choices p) = ResolvedIssues p"
  "CallHistory (updateIssueStats choices p) = CallHistory p"
  "TotalCalls (updateIssueStats choices p) = TotalCalls p"
  "CreatedAt (updateIssueStats choices p) = CreatedAt p"
  by (simp_all add: updateIssueStats_def Let_def split del: if_split cong: if_cong)

text \<open>
  What a successful reconciliation returns, in terms of the profile \<open>p2\<close> that is handed
  to \<open>processIssues\<close>: the loaded (or new) profile with the call prepended to its history.
\<close>

lemma UpdateSellerProfile_result:
  assumes "UpdateSellerProfile env (Inr stored) g a ht = Inr p'"
  defines "p0 \<equiv> (case stored of None \<Rightarrow> newProfile g (nowCreate env) | Some p \<Rightarrow> p)"
  shows "\<exists>p2. GluserID p2 = GluserID p0 \<and> ActiveIssues p2 = ActiveIssues p0 \<and>
           ResolvedIssues p2 = ResolvedIssues p0 \<and> TotalCalls p2 = TotalCalls p0 + 1 \<and>
           length (CallHistory p2) = length (CallHistory p0) + 1 \<and>
           CreatedAt p2 = CreatedAt p0 \<and>
           GluserID p' = GluserID p0 \<and>
           ActiveIssues p' = ActiveIssues (fst (processIssues (nowIssues env) p2 a)) \<and>
           ResolvedIssues p' = ResolvedIssues (fst (processIssues (nowIssues env) p2 a)) \<and>
           TotalCalls p' = TotalCalls p0 + 1 \<and>
           length (CallHistory p') = length (CallHistory p0) + 1 \<and>
           CreatedAt p' = CreatedAt p0 \<and> UpdatedAt p' = nowSave env"
proof -
  define p1 where "p1 =
     (case ht of None \<Rightarrow> p0
      | Some h \<Rightarrow> p0 \<lparr> CustomerType := htCustomerType h, CityName := htCityName h,
                      Vertical := IILVerticalName h, VintageMonths := htVintageMonths h,
                      SellerCategories := map McatName (htSellerCategories h) \<rparr>)"
  have p1: "GluserID p1 = GluserID p0" "ActiveIssues p1 = ActiveIssues p0"
    "ResolvedIssues p1 = ResolvedIssues p0" "TotalCalls p1 = TotalCalls p0"
    "CallHistory p1 = CallHistory p0" "CreatedAt p1 = CreatedAt p0"
    unfolding p1_def by (simp_all split: option.splits)
  from assms(1) obtain cs where
    p': "p' = (updateIssueStats (rangeChoices env)
           (calculateCurrentStatus
              (updateTrends (formatDate env)
                 ((fst (processIssues (nowIssues env)
                      (p1 \<lparr> CallHistory := cs # CallHistory p1, TotalCalls := TotalCalls p1 + 1,
                            LastCallAt := Timestamp a \<rparr>) a))
                  \<lparr> CallHistory := (CallHistory (fst (processIssues (nowIssues env)
                      (p1 \<lparr> CallHistory := cs # CallHistory p1, TotalCalls := TotalCalls p1 + 1,
                            LastCallAt := Timestamp a \<rparr>) a)))
                      [0 := (CallHistory (fst (processIssues (nowIssues env)
                      (p1 \<lparr> CallHistory := cs # CallHistory p1, TotalCalls := TotalCalls p1 + 1,
                            LastCallAt := Timestamp a \<rparr>) a)) ! 0)
                         \<lparr> IssuesResolved := snd (processIssues (nowIssues env)
                      (p1 \<lparr> CallHistory := cs # CallHistory p1, TotalCalls := TotalCalls p1 + 1,
                            LastCallAt := Timestamp a \<rparr>) a) \<rparr>] \<rparr>) a) a))
          \<lparr> UpdatedAt := nowSave env \<rparr>"
    unfolding UpdateSellerProfile_def Let_def split_def p1_def p0_def
    by (auto split: if_splits)
  let ?p2 = "p1 \<lparr> CallHistory := cs # CallHistory p1, TotalCalls := TotalCalls p1 + 1,
                  LastCallAt := Timestamp a \<rparr>"
  show ?thesis
    by (rule exI[of _ ?p2]) (simp add: p' p1)
qed

lemma UpdateSellerProfile_succeeds:
  "\<not> saveFails env \<Longrightarrow> \<exists>p'. UpdateSellerProfile env (Inr stored) g a ht = Inr p'"
  by (simp add: UpdateSellerProfile_def Let_def split_def)

lemma UpdateSellerProfile_load_error:
  "UpdateSellerProfile env (Inl e) g a ht = Inl LoadFailed"
  by (simp add: UpdateSellerProfile_def)
lemma tracked_cong:
  assumes "GluserID q = GluserID p" "ActiveIssues q = ActiveIssues p"
    "ResolvedIssues q = ResolvedIssues p"
  shows "tracked g S q = tracked g S p"
  unfolding tracked_def issueIDs_def assms ..

lemma tracked_new: "tracked g S (newProfile g t)"
  by (simp add: tracked_def issueIDs_def newProfile_def)

lemma trackIssues_ids_distinct:
  assumes "tracked g S q" and "CallID a \<notin> S"
  shows "distinct (map IssueID (ActiveIssues (fst (foldl (trackIssue now a) (q, {}) issues))))"
proof -
  have "tracking g (CallID a) S (fst (q, {}::string set))"
    using assms(1) by (simp add: tracked_tracking)
  from trackIssues_tracking[OF this assms(2)]
  have "distinct (issueIDs (fst (foldl (trackIssue now a) (q, {}) issues)))"
    unfolding tracking_def by blast
  then show ?thesis unfolding issueIDs_def by simp
qed

lemma processIssues_buckets:
  assumes "distinct (map Bucket (ActiveIssues p))"
  shows "distinct (map Bucket (ActiveIssues (fst (processIssues now p a))))"
proof -
  let ?st = "foldl (trackIssue now a) (p, {}) (Issues a)"
  from trackIssues_fold[of "(p, {})" "Issues a" "iBucket ` set (Issues a)" now a] assms
  have d: "distinct (map Bucket (ActiveIssues (fst ?st)))" by simp
  show ?thesis
  proof (cases "PromptResolution (Intent a)")
    case True
    with processIssues_lists[of now p a]
    have "ActiveIssues (fst (processIssues now p a)) =
        filter (\<lambda>t. IssueID t \<in> snd ?st) (ActiveIssues (fst ?st))"
      by (simp add: Let_def split_def)
    with d show ?thesis by (simp add: distinct_map_filter)
  next
    case False
    with processIssues_lists[of now p a]
    have "ActiveIssues (fst (processIssues now p a)) = ActiveIssues (fst ?st)"
      by (simp add: Let_def split_def)
    with d show ?thesis by simp
  qed
qed

text \<open>
  One successful reconciliation keeps the invariants of the tracked issues and of the
  call count.
\<close>

lemma UpdateSellerProfile_keeps_tracked:
  assumes r: "UpdateSellerProfile env (Inr stored) g a ht = Inr p'"
    and s: "case stored of None \<Rightarrow> True
            | Some p \<Rightarrow> tracked g S p \<and> distinct (map Bucket (ActiveIssues p)) \<and>
                TotalCalls p = int (length (CallHistory p))"
    and fresh: "CallID a \<notin> S"
  shows "tracked g (insert (CallID a) S) p' \<and> distinct (map Bucket (ActiveIssues p')) \<and>
         TotalCalls p' = int (length (CallHistory p'))"
proof -
  define p0 where "p0 = (case stored of None \<Rightarrow> newProfile g (nowCreate env) | Some p \<Rightarrow> p)"
  have t0: "tracked g S p0" and b0: "distinct (map Bucket (ActiveIssues p0))"
    and c0: "TotalCalls p0 = int (length (CallHistory p0))"
    using s unfolding p0_def
    by (auto split: option.splits simp: tracked_new) (simp_all add: newProfile_def)
  from UpdateSellerProfile_result[OF r, folded p0_def] obtain p2 where
    p2: "GluserID p2 = GluserID p0" "ActiveIssues p2 = ActiveIssues p0"
      "ResolvedIssues p2 = ResolvedIssues p0"
    and p': "GluserID p' = GluserID p0"
      "ActiveIssues p' = ActiveIssues (fst (processIssues (nowIssues env) p2 a))"
      "ResolvedIssues p' = ResolvedIssues (fst (processIssues (nowIssues env) p2 a))"
      "TotalCalls p' = TotalCalls p0 + 1"
      "length (CallHistory p') = length (CallHistory p0) + 1"
    by blast
  have "tracked g S p2" using t0 tracked_cong[OF p2] by simp
  from processIssues_tracked[OF this fresh]
  have "tracked g (insert (CallID a) S) (fst (processIssues (nowIssues env) p2 a))" .
  moreover have "tracked g (insert (CallID a) S) p' =
      tracked g (insert (CallID a) S) (fst (processIssues (nowIssues env) p2 a))"
    by (rule tracked_cong) (simp_all add: p' p2)
  ultimately have t: "tracked g (insert (CallID a) S) p'" by simp
  have "distinct (map Bucket (ActiveIssues p2))" using b0 p2 by simp
  then have b: "distinct (map Bucket (ActiveIssues p'))"
    unfolding p' by (rule processIssues_buckets)
  from t b c0 p' show ?thesis by simp
qed

text \<open>
  One successful reconciliation sets the update time to the reading of the clock at the
  save and leaves the creation time, which for a new profile is the reading at its
  creation.
\<close>

lemma UpdateSellerProfile_times:
  assumes "UpdateSellerProfile env (Inr stored) g a ht = Inr p'"
  shows "UpdatedAt p' = nowSave env \<and>
         CreatedAt p' = (case stored of None \<Rightarrow> nowCreate env | Some p \<Rightarrow> CreatedAt p)"
proof -
  from UpdateSellerProfile_result[OF assms]
  have "UpdatedAt p' = nowSave env"
    and "CreatedAt p' = CreatedAt (case stored of None \<Rightarrow> newProfile g (nowCreate env) | Some p \<Rightarrow> p)"
    by blast+
  then show ?thesis by (simp add: newProfile_def split: option.splits)
qed

lemma clockReadings_Cons:
  "clockReadings (r # rs) =
     nowCreate (rEnv r) # nowIssues (rEnv r) # nowSave (rEnv r) # clockReadings rs"
  by (simp add: clockReadings_def)

text \<open>
  A run of reconciliations with pairwise distinct call identifiers, none of them used
  before, keeps the invariants of the tracked issues and of the call count; the
  identifiers of the stored profile are made for calls of the run or earlier ones.
\<close>

lemma reconcile_keeps_tracked:
  assumes "distinct (map (\<lambda>r. CallID (rAnalysis r)) rs)"
    and "\<forall>r \<in> set rs. CallID (rAnalysis r) \<notin> S"
    and "case stored of None \<Rightarrow> True
         | Some p \<Rightarrow> tracked g S p \<and> distinct (map Bucket (ActiveIssues p)) \<and>
             TotalCalls p = int (length (CallHistory p))"
  shows "case reconcile g stored rs of None \<Rightarrow> True
         | Some p \<Rightarrow> tracked g (S \<union> set (map (\<lambda>r. CallID (rAnalysis r)) rs)) p \<and>
             distinct (map Bucket (ActiveIssues p)) \<and>
             TotalCalls p = int (length (CallHistory p))"
  using assms
proof (induction rs arbitrary: stored S)
  case Nil
  then show ?case by (auto split: option.splits)
next
  case (Cons r rs)
  let ?c = "CallID (rAnalysis r)"
  let ?loaded = "if loadFails r then Inl LoadFailed else Inr stored"
  let ?res = "UpdateSellerProfile (rEnv r) ?loaded g (rAnalysis r) (rTranscript r)"
  from Cons.prems(1) have d: "distinct (map (\<lambda>r. CallID (rAnalysis r)) rs)"
    and notin: "?c \<notin> (\<lambda>r. CallID (rAnalysis r)) ` set rs" by simp_all
  have new: "\<forall>r' \<in> set rs. CallID (rAnalysis r') \<noteq> ?c"
  proof
    fix r' assume "r' \<in> set rs"
    then have "CallID (rAnalysis r') \<in> (\<lambda>r. CallID (rAnalysis r)) ` set rs" by (rule imageI)
    with notin show "CallID (rAnalysis r') \<noteq> ?c" by auto
  qed
  from Cons.prems(2) have fresh: "?c \<notin> S"
    and rest: "\<forall>r \<in> set rs. CallID (rAnalysis r) \<notin> S" by simp_all
  have mono: "tracked g (S \<union> set (map (\<lambda>r. CallID (rAnalysis r)) (r # rs))) p"
    if "tracked g (T \<union> set (map (\<lambda>r. CallID (rAnalysis r)) rs)) p" "T \<subseteq> insert ?c S" for T p
    using that unfolding tracked_def by (auto; blast)
  show ?case
  proof (cases ?res)
    case (Inl e)
    from Cons.IH[OF d rest Cons.prems(3)] Inl mono[of S] show ?thesis
      by (auto split: option.splits)
  next
    case (Inr p')
    then have ok: "\<not> loadFails r" by (auto simp: UpdateSellerProfile_load_error)
    with Inr have res: "UpdateSellerProfile (rEnv r) (Inr stored) g (rAnalysis r) (rTranscript r) = Inr p'"
      by simp
    note keep = UpdateSellerProfile_keeps_tracked[OF res Cons.prems(3) fresh]
    have rest': "\<forall>r' \<in> set rs. CallID (rAnalysis r') \<notin> insert ?c S"
      using rest new by simp
    have "case Some p' of None \<Rightarrow> True
         | Some p \<Rightarrow> tracked g (insert ?c S) p \<and> distinct (map Bucket (ActiveIssues p)) \<and>
             TotalCalls p = int (length (CallHistory p))"
      using keep by simp
    from Cons.IH[OF d rest' this] Inr mono[of "insert ?c S"] show ?thesis
      by (auto split: option.splits)
  qed
qed

text \<open>
  With clock readings in non-decreasing order the stored profile was not updated
  before it was created.
\<close>

lemma reconcile_keeps_times:
  assumes "sorted (clockReadings rs)"
    and "case stored of None \<Rightarrow> True
         | Some p \<Rightarrow> CreatedAt p \<le> UpdatedAt p \<and> (\<forall>t \<in> set (clockReadings rs). CreatedAt p \<le> t)"
  shows "case reconcile g stored rs of None \<Rightarrow> True | Some p \<Rightarrow> CreatedAt p \<le> UpdatedAt p"
  using assms
proof (induction rs arbitrary: stored)
  case Nil
  then show ?case by (auto split: option.splits)
next
  case (Cons r rs)
  let ?loaded = "if loadFails r then Inl LoadFailed else Inr stored"
  let ?res = "UpdateSellerProfile (rEnv r) ?loaded g (rAnalysis r) (rTranscript r)"
  from Cons.prems(1) have sorted: "sorted (clockReadings rs)"
    and c1: "nowCreate (rEnv r) \<le> nowSave (rEnv r)"
    and c2: "\<forall>t \<in> set (clockReadings rs). nowCreate (rEnv r) \<le> t"
    by (simp_all add: clockReadings_Cons)
  show ?case
  proof (cases ?res)
    case (Inl e)
    have "case stored of None \<Rightarrow> True
         | Some p \<Rightarrow> CreatedAt p \<le> UpdatedAt p \<and> (\<forall>t \<in> set (clockReadings rs). CreatedAt p \<le> t)"
      using Cons.prems(2) by (auto split: option.splits simp: clockReadings_Cons)
    from Cons.IH[OF sorted this] Inl show ?thesis by simp
  next
    case (Inr p')
    then have ok: "\<not> loadFails r" by (auto simp: UpdateSellerProfile_load_error)
    with Inr have res: "UpdateSellerProfile (rEnv r) (Inr stored) g (rAnalysis r) (rTranscript r) = Inr p'"
      by simp
    note times = UpdateSellerProfile_times[OF res]
    have "case Some p' of None \<Rightarrow> True
         | Some p \<Rightarrow> CreatedAt p \<le> UpdatedAt p \<and> (\<forall>t \<in> set (clockReadings rs). CreatedAt p \<le> t)"
      using times c1 c2 Cons.prems(2) by (auto split: option.splits simp: clockReadings_Cons)
    from Cons.IH[OF sorted this] Inr show ?thesis by simp
  qed
qed

lemma tracked_disjoint:
  assumes "tracked g S p"
  shows "set (map IssueID (ActiveIssues p)) \<inter> set (map IssueID (ResolvedIssues p)) = {}"
  using assms unfolding tracked_def issueIDs_def by simp

text \<open>
  The profiles that the reconciler stores meet what the resolution policy asks of a
  profile: after a run with pairwise distinct call identifiers, for a further call with
  an identifier not used in the run, the stored profile, and every profile with its
  account and issue lists, has at most one active issue per category and keeps its
  issue identifiers distinct when the issues of the call are tracked.
\<close>

lemma reconciled_profiles_resolve:
  assumes "distinct (map (\<lambda>r. CallID (rAnalysis r)) rs)"
    and "CallID a \<notin> set (map (\<lambda>r. CallID (rAnalysis r)) rs)"
    and "reconcile g None rs = Some p"
    and "GluserID q = GluserID p" "ActiveIssues q = ActiveIssues p"
      "ResolvedIssues q = ResolvedIssues p"
  shows "distinct (map Bucket (ActiveIssues q)) \<and>
         distinct (map IssueID (ActiveIssues (fst (foldl (trackIssue now a) (q, {}) (Issues a)))))"
proof -
  from reconcile_keeps_tracked[where rs = rs and S = "{}" and stored = None and g = g, OF assms(1)]
    assms(3)
  have t: "tracked g (set (map (\<lambda>r. CallID (rAnalysis r)) rs)) p"
    and b: "distinct (map Bucket (ActiveIssues p))" by simp_all
  from t have "tracked g (set (map (\<lambda>r. CallID (rAnalysis r)) rs)) q"
    using tracked_cong[OF assms(4,5,6)] by simp
  from trackIssues_ids_distinct[OF this assms(2)] b assms(5) show ?thesis by simp
qed

lemma skewedRun_stored:
  "\<exists>p. reconcile ''g'' None skewedRun = Some p \<and> CreatedAt p = 10 \<and> UpdatedAt p = 5"
proof -
  let ?env = "(exampleEnv 10) \<lparr> nowSave := 5 \<rparr>"
  obtain p where p: "UpdateSellerProfile ?env (Inr None) ''g'' billingCall None = Inr p"
    using UpdateSellerProfile_succeeds[of ?env None "''g''" billingCall None]
    by (auto simp: exampleEnv_def)
  from UpdateSellerProfile_times[OF p] have "CreatedAt p = 10" "UpdatedAt p = 5"
    by (simp_all add: exampleEnv_def)
  then show ?thesis by (simp add: skewedRun_def p)
qed

text \<open>
  C9, as stated, fails for the time stamps. The creation time
  of a new profile and the update time are two readings of the clock, the second taken
  at the save; when the clock is set back between them, from 10 to 5 in the run
  \<open>skewedRun\<close> of one reconciliation, the stored profile was updated before it was
  created.
\<close>

theorem updated_before_created:
  "distinct (map (\<lambda>r. CallID (rAnalysis r)) skewedRun) \<and>
   (case reconcile ''g'' None skewedRun of
      None \<Rightarrow> False
    | Some p \<Rightarrow> CreatedAt p = 10 \<and> UpdatedAt p = 5 \<and> UpdatedAt p < CreatedAt p)"
proof -
  have "distinct (map (\<lambda>r. CallID (rAnalysis r)) skewedRun)"
    by (simp add: skewedRun_def)
  moreover from skewedRun_stored obtain p
    where "reconcile ''g'' None skewedRun = Some p" "CreatedAt p = 10" "UpdatedAt p = 5"
    by blast
  ultimately show ?thesis by simp
qed

text \<open>
  C9, as amended. Start from no stored profile and reconcile any
  sequence of calls with pairwise distinct call identifiers, some of which may fail at
  the load or at the save. Then the stored profile, if there is one, has no issue
  identifier in both the active and the resolved list, and its call count is the length
  of its call history; and if the readings of the clock were taken in non-decreasing
  order, it was not updated before it was created.
\<close>

theorem profile_invariants:
  assumes "distinct (map (\<lambda>r. CallID (rAnalysis r)) rs)"
  shows "case reconcile g None rs of
           None \<Rightarrow> True
         | Some p \<Rightarrow>
             set (map IssueID (ActiveIssues p)) \<inter> set (map IssueID (ResolvedIssues p)) = {} \<and>
             TotalCalls p = int (length (CallHistory p)) \<and>
             (sorted (clockReadings rs) \<longrightarrow> CreatedAt p \<le> UpdatedAt p)"
proof (cases "reconcile g None rs")
  case None
  then show ?thesis by simp
next
  case (Some p)
  from reconcile_keeps_tracked[where rs = rs and S = "{}" and stored = None and g = g, OF assms(1)]
    Some
  have t: "tracked g (set (map (\<lambda>r. CallID (rAnalysis r)) rs)) p"
    and c: "TotalCalls p = int (length (CallHistory p))" by simp_all
  have u: "CreatedAt p \<le> UpdatedAt p" if "sorted (clockReadings rs)"
    using reconcile_keeps_times[where rs = rs and stored = None and g = g, OF that] Some
    by simp
  from tracked_disjoint[OF t] c u Some show ?thesis by simp
qed

lemma exampleRun_stored: "\<exists>p. reconcile ''g'' None exampleRun = Some p"
proof -
  obtain p1 where p1: "UpdateSellerProfile (exampleEnv 10) (Inr None) ''g'' billingCall None = Inr p1"
    using UpdateSellerProfile_succeeds[of "exampleEnv 10" None "''g''" billingCall None]
    by (auto simp: exampleEnv_def)
  obtain p2 where p2: "UpdateSellerProfile (exampleEnv 20) (Inr (Some p1)) ''g'' resolvingCall None = Inr p2"
    using UpdateSellerProfile_succeeds[of "exampleEnv 20" "Some p1" "''g''" resolvingCall None]
    by (auto simp: exampleEnv_def)
  show ?thesis by (simp add: exampleRun_def p1 p2)
qed

theorem profile_invariants_witness:
  "distinct (map (\<lambda>r. CallID (rAnalysis r)) exampleRun) \<and>
   sorted (clockReadings exampleRun) \<and>
   (case reconcile ''g'' None exampleRun of
      None \<Rightarrow> False
    | Some p \<Rightarrow>
        set (map IssueID (ActiveIssues p)) \<inter> set (map IssueID (ResolvedIssues p)) = {} \<and>
        TotalCalls p = int (length (CallHistory p)) \<and>
        CreatedAt p \<le> UpdatedAt p)"
proof -
  have h1: "distinct (map (\<lambda>r. CallID (rAnalysis r)) exampleRun)"
    by (simp add: exampleRun_def billingCall_def resolvingCall_def exampleAnalysis_def)
  have h2: "sorted (clockReadings exampleRun)"
    by (simp add: exampleRun_def clockReadings_def exampleEnv_def)
  from exampleRun_stored obtain p where p: "reconcile ''g'' None exampleRun = Some p" by blast
  from profile_invariants[OF h1, of "''g''"] h1 h2 show ?thesis
    unfolding p by simp
qed

end
